theory Spec2Isabelle
  imports
    Main
    "HOL-Library.Word"
    "HOL-Library.Char_ord"
    "HOL-Library.List_Lexorder"
    "HOL-Library.Product_Lexorder"
begin

section \<open>Exceptions and byte strings\<close>

text \<open>
  The Python exceptions that the module raises or lets through, as values.  A call that may
  raise returns \<open>exn + 'a\<close>, with \<open>Inl\<close> the exception.
\<close>

datatype exn =
    Exception string
  | KeyboardInterrupt
  | SystemExit int
  | FileNotFoundError string
  | KeyError string
  | IOError string
  | TypeError string

type_synonym byte = "8 word"
type_synonym bytes = "byte list"

section \<open>ensureFileExist\<close>

text \<open>
  \<open>os.path.exists\<close> is answered by the environment: \<open>ex t path\<close> tells whether
  \<open>path\<close> exists after \<open>t\<close> seconds of sleeping.  The clock counts the calls of
  \<open>time.sleep(1)\<close>.  The loop \<open>for x in range(120)\<close> is a recursion on the number of
  attempts that are left; its \<open>else\<close> branch runs when the range is exhausted without
  \<open>break\<close>.
\<close>

fun ensureFileExist_loop ::
  "(nat \<Rightarrow> string \<Rightarrow> bool) \<Rightarrow> string \<Rightarrow> nat \<Rightarrow> nat \<Rightarrow> (exn + unit) \<times> nat" where
  "ensureFileExist_loop ex path 0 clock =
     (Inl (Exception (''File does not exist: '' @ path)), clock)"
| "ensureFileExist_loop ex path (Suc n) clock =
     (if ex clock path then (Inr (), clock)
      else ensureFileExist_loop ex path n (clock + 1))"

definition ensureFileExist ::
  "(nat \<Rightarrow> string \<Rightarrow> bool) \<Rightarrow> string \<Rightarrow> nat \<Rightarrow> (exn + unit) \<times> nat" where
  "ensureFileExist ex path clock = ensureFileExist_loop ex path 120 clock"

section \<open>Secure-world pages\<close>

record pfn_obj =
  ReferenceCount :: int
  ShareCount :: int
  PteAddress :: int

definition PAGE_SIZE :: int where
  "PAGE_SIZE = 0x1000"

definition PAGE_BITS :: nat where
  "PAGE_BITS = 12"

text \<open>
  The first loop of \<open>_cg\<close>: \<open>image_size\<close> is the \<open>end\<close> of the last row of
  \<open>phys_map\<close>, and 0 when there is no row.
\<close>

definition image_size_of :: "(int \<times> int \<times> int) list \<Rightarrow> int" where
  "image_size_of rows = fold (\<lambda>(start, end, count) image_size. end) rows 0"

text \<open>
  The scan of \<open>_cg\<close>: \<open>for pfn in range(image_size//PAGE_SIZE)\<close>, appending
  \<open>pfn << PAGE_BITS\<close> for each page whose entry of \<open>MmPfnDatabase\<close> passes the test.
  A Python range with a non-positive bound is empty, as \<open>[0..n - 1]\<close> is.
\<close>

definition is_secure_world_page :: "pfn_obj \<Rightarrow> bool" where
  "is_secure_world_page pfn_obj \<longleftrightarrow>
     ReferenceCount pfn_obj = 2 \<and> ShareCount pfn_obj = 1 \<and> PteAddress pfn_obj = 0"

definition find_secure_world_pages :: "(int \<Rightarrow> pfn_obj) \<Rightarrow> int \<Rightarrow> int list" where
  "find_secure_world_pages MmPfnDatabase image_size =
     fold (\<lambda>pfn secure_world_pages.
             if is_secure_world_page (MmPfnDatabase pfn)
             then secure_world_pages @ [push_bit PAGE_BITS pfn]
             else secure_world_pages)
          [0..image_size div PAGE_SIZE - 1] []"

text \<open>
  \<open>read_secure_world\<close>: one read of \<open>PAGE_SIZE\<close> bytes per address, in the order of the
  list; the function has no handler, so the first read that raises ends it.
\<close>

fun read_secure_world_loop ::
  "(int \<Rightarrow> int \<Rightarrow> exn + bytes) \<Rightarrow> int list \<Rightarrow> bytes list \<Rightarrow> exn + bytes list" where
  "read_secure_world_loop rd [] secure_world = Inr secure_world"
| "read_secure_world_loop rd (addr # rest) secure_world =
     (case rd addr 4096 of
        Inl e \<Rightarrow> Inl e
      | Inr data \<Rightarrow> read_secure_world_loop rd rest (secure_world @ [data]))"

definition read_secure_world :: "(int \<Rightarrow> int \<Rightarrow> exn + bytes) \<Rightarrow> int list \<Rightarrow> exn + bytes" where
  "read_secure_world rd secure_world_pages =
     (case read_secure_world_loop rd secure_world_pages [] of
        Inl e \<Rightarrow> Inl e
      | Inr secure_world \<Rightarrow> Inr (concat secure_world))"

section \<open>Intervals\<close>

text \<open>
  Modelled from the spec: the package \<open>intervals\<close> (imported as \<open>I\<close>) is not part of the
  sources.  The module uses \<open>I.empty\<close>, \<open>I.closedopen\<close>, the operators \<open>&\<close> and
  \<open>|\<close>, comparison with \<open>I.empty()\<close>, iteration with \<open>lower\<close> and \<open>upper\<close>, and
  \<open>I.IntervalDict\<close> with item assignment and \<open>find\<close>.  Following section 4.1 and the
  design notes (ranges are sets of addresses; subtraction, intersection and merge over
  half-open ranges), an interval is the list of its atomic intervals \<open>[lower, upper)\<close>,
  each non-empty, in increasing order, any two separated by a gap: overlapping and touching
  atomic intervals are merged.  The addresses are integers and all intervals here are
  closed on the left and open on the right, so an atomic interval is the pair of its bounds.
  The empty interval is the list without atomic interval; what the package yields when it
  is iterated is \<open>atomic_intervals\<close> below.
\<close>

type_synonym atomic = "int \<times> int"
type_synonym interval = "atomic list"

fun merge_atomics :: "atomic list \<Rightarrow> atomic list" where
  "merge_atomics (a # b # rest) =
     (if fst b \<le> snd a then merge_atomics ((fst a, max (snd a) (snd b)) # rest)
      else a # merge_atomics (b # rest))"
| "merge_atomics atoms = atoms"

definition Interval :: "atomic list \<Rightarrow> interval" where
  "Interval atoms = merge_atomics (sort_key fst (filter (\<lambda>(lower, upper). lower < upper) atoms))"

definition empty_interval :: interval where
  "empty_interval = []"

definition closedopen :: "int \<Rightarrow> int \<Rightarrow> interval" where
  "closedopen lower upper = Interval [(lower, upper)]"

definition union_interval :: "interval \<Rightarrow> interval \<Rightarrow> interval" where
  "union_interval i j = Interval (i @ j)"

definition intersection :: "interval \<Rightarrow> interval \<Rightarrow> interval" where
  "intersection i j =
     Interval (concat (map (\<lambda>(l, u). map (\<lambda>(l', u'). (max l l', min u u')) j) i))"

definition difference_atomic :: "atomic \<Rightarrow> atomic \<Rightarrow> atomic list" where
  "difference_atomic a b = [(fst a, min (snd a) (fst b)), (max (fst a) (snd b), snd a)]"

definition difference :: "interval \<Rightarrow> interval \<Rightarrow> interval" where
  "difference i j =
     fold (\<lambda>b acc. Interval (concat (map (\<lambda>a. difference_atomic a b) acc))) j (Interval i)"

text \<open>The addresses of an atomic interval, of a list of them, and of a pair \<open>(start, end)\<close>.\<close>

definition atomic_addresses :: "atomic \<Rightarrow> int set" where
  "atomic_addresses a = {fst a..<snd a}"

definition addresses :: "atomic list \<Rightarrow> int set" where
  "addresses atoms = (\<Union>a\<in>set atoms. atomic_addresses a)"

text \<open>
  Modelled from the spec: \<open>I.IntervalDict\<close>, of the same package.  It holds one interval
  per value; assigning a value to a key gives the key's addresses to that value and takes
  them from every other value, and \<open>find\<close> returns the interval of a value.
\<close>

type_synonym IntervalDict = "(interval \<times> string) list"

definition setitem :: "IntervalDict \<Rightarrow> interval \<Rightarrow> string \<Rightarrow> IntervalDict" where
  "setitem d key v =
     (if key = empty_interval then d
      else
        (let items = filter (\<lambda>(found_key, found_value). found_key \<noteq> empty_interval)
               (map (\<lambda>(found_key, found_value).
                       if v = found_value then (union_interval found_key key, found_value)
                       else (difference found_key key, found_value)) d)
         in if list_ex (\<lambda>(found_key, found_value). v = found_value) d then items
            else items @ [(key, v)]))"

definition find_value :: "IntervalDict \<Rightarrow> string \<Rightarrow> interval" where
  "find_value d v = Interval (concat (map fst (filter (\<lambda>(key, found_value). found_value = v) d)))"

section \<open>read\_memory\_fast\<close>

record memory_info =
  BaseAddress :: int
  AllocationBase :: int
  AllocationProtect :: int
  RegionSize :: int
  Protect :: int
  State :: int
  Type :: int

text \<open>
  The bounds that the package hands out: an integer, or one of its two infinities, which
  compare below and above every integer.
\<close>

datatype bound = NInf | Fin int | PInf

instantiation bound :: linorder
begin

fun less_eq_bound :: "bound \<Rightarrow> bound \<Rightarrow> bool" where
  "less_eq_bound NInf y = True"
| "less_eq_bound (Fin a) NInf = False"
| "less_eq_bound (Fin a) (Fin b) = (a \<le> b)"
| "less_eq_bound (Fin a) PInf = True"
| "less_eq_bound PInf PInf = True"
| "less_eq_bound PInf y = False"

definition less_bound :: "bound \<Rightarrow> bound \<Rightarrow> bool" where
  "less_bound x y \<longleftrightarrow> x \<le> y \<and> \<not> y \<le> x"

instance
proof
  fix x y z :: bound
  show "x < y \<longleftrightarrow> x \<le> y \<and> \<not> y \<le> x"
    by (simp add: less_bound_def)
  show "x \<le> x"
    by (cases x) simp_all
  show "x \<le> y \<Longrightarrow> y \<le> z \<Longrightarrow> x \<le> z"
    by (cases x; cases y; cases z) simp_all
  show "x \<le> y \<Longrightarrow> y \<le> x \<Longrightarrow> x = y"
    by (cases x; cases y) simp_all
  show "x \<le> y \<or> y \<le> x"
    by (cases x; cases y) auto
qed

end

text \<open>
  Modelled from the spec: iteration over an interval of the package \<open>intervals\<close>, which
  is not part of the sources, with \<open>lower\<close> and \<open>upper\<close> of what it yields.  It yields
  the atomic intervals in order.  The package keeps the empty interval as one empty atomic
  interval with the lower bound \<open>+inf\<close> and the upper bound \<open>-inf\<close>, and iterating the
  empty interval yields that one.
\<close>

definition atomic_intervals :: "interval \<Rightarrow> (bound \<times> bound) list" where
  "atomic_intervals i =
     (if i = empty_interval then [(PInf, NInf)] else map (\<lambda>(l, u). (Fin l, Fin u)) i)"

type_synonym module = "string \<times> int \<times> int"
type_synonym operation = "bound \<times> bound \<times> string"
type_synonym memory64 = "int \<times> int \<times> bytes"

text \<open>
  The inner loop over \<open>mem_list\<close> (lines 89 to 94): a live range that meets the module is
  entered as \<open>'mem'\<close>; the loop stops after the first range that starts beyond the module.
  \<open>modi\<close> is the interval \<open>mod\<close> of the source.
\<close>

fun mark_available ::
  "IntervalDict \<Rightarrow> int \<Rightarrow> int \<Rightarrow> interval \<Rightarrow> (int \<times> int) list \<Rightarrow> IntervalDict" where
  "mark_available d mod_start size' modi [] = d"
| "mark_available d mod_start size' modi ((start, end') # rest) =
     (let mem = closedopen start end';
          d' = (if intersection mem modi \<noteq> empty_interval then setitem d mem ''mem'' else d)
      in if start > mod_start + size' then d'
         else mark_available d' mod_start size' modi rest)"

text \<open>The body of the loop over \<open>module_list\<close> (lines 83 to 96).\<close>

definition fill_module :: "(int \<times> int) list \<Rightarrow> module \<Rightarrow> interval \<Rightarrow> interval" where
  "fill_module mem_list m filling =
     (case m of (a, mod_start, size') \<Rightarrow>
        (let modi = closedopen mod_start (mod_start + size');
             d = setitem [] modi ''fill'';
             d' = mark_available d mod_start size' modi mem_list
         in union_interval filling (find_value d' ''fill'')))"

definition find_filling :: "module list \<Rightarrow> (int \<times> int) list \<Rightarrow> interval" where
  "find_filling module_list mem_list = fold (fill_module mem_list) module_list empty_interval"

text \<open>Lines 99 to 103: what to read, what to zero fill.\<close>

definition make_operations :: "interval \<Rightarrow> (int \<times> int) list \<Rightarrow> operation list" where
  "make_operations filling mem_list =
     map (\<lambda>x. (fst x, snd x, ''pad'')) (atomic_intervals filling)
     @ map (\<lambda>(start, end'). (Fin start, Fin end', ''mem'')) mem_list"

definition operations :: "module list \<Rightarrow> (int \<times> int) list \<Rightarrow> operation list" where
  "operations module_list ranges =
     (let module_list' = sort module_list;
          mem_list = sort ranges
      in sort (make_operations (find_filling module_list' mem_list) mem_list))"

text \<open>
  Lines 106 to 127: one region record and one read per operation.  The loop body starts
  with \<open>size = end - start\<close>: between two integers that is their difference, and with an
  infinity of the package on either side Python raises \<open>TypeError\<close>, before the region
  record and the read of that operation.  Both branches of the test on \<open>op\<close> read.  The
  read is a capability \<open>rd\<close> of a start and a size that may raise; the loop has no
  handler.
\<close>

fun read_and_fill ::
  "(int \<Rightarrow> int \<Rightarrow> exn + bytes) \<Rightarrow> operation list \<Rightarrow> memory_info list \<Rightarrow> memory64 list \<Rightarrow>
   exn + (memory_info list \<times> memory64 list)" where
  "read_and_fill rd [] memoryinfo_list memory64_list = Inr (memoryinfo_list, memory64_list)"
| "read_and_fill rd ((Fin start, Fin end', kind) # rest) memoryinfo_list memory64_list =
     (let size' = end' - start;
          mi = \<lparr>BaseAddress = start, AllocationBase = 0, AllocationProtect = 0,
                RegionSize = size', Protect = 0, State = 0, Type = 0\<rparr>
      in case (if kind = ''fill'' then rd start size' else rd start size') of
           Inl e \<Rightarrow> Inl e
         | Inr data \<Rightarrow>
             read_and_fill rd rest (memoryinfo_list @ [mi]) (memory64_list @ [(start, size', data)]))"
| "read_and_fill rd ((start, end', kind) # rest) memoryinfo_list memory64_list =
     Inl (TypeError ''unsupported operand type(s) for -'')"

text \<open>
  Whether an operation has integer bounds, and then its start, its size and the region
  record that the loop of \<open>read_memory_fast\<close> builds for it (start and size are given as
  0 for an operation with an infinite bound, for which the loop builds no record).
\<close>

fun finite_operation :: "operation \<Rightarrow> bool" where
  "finite_operation (Fin start, Fin end', kind) = True"
| "finite_operation x = False"

fun operation_start :: "operation \<Rightarrow> int" where
  "operation_start (Fin start, end', kind) = start"
| "operation_start x = 0"

fun operation_size :: "operation \<Rightarrow> int" where
  "operation_size (Fin start, Fin end', kind) = end' - start"
| "operation_size x = 0"

definition region_of :: "operation \<Rightarrow> memory_info" where
  "region_of x =
     \<lparr>BaseAddress = operation_start x, AllocationBase = 0, AllocationProtect = 0,
      RegionSize = operation_size x, Protect = 0, State = 0, Type = 0\<rparr>"

text \<open>
  \<open>read_memory_fast\<close>; \<open>ranges\<close> are the pairs \<open>(run.start, run.end)\<close> of the address
  space of the process and \<open>rd\<close> is its \<open>read\<close>.
\<close>

definition read_memory_fast ::
  "(int \<Rightarrow> int \<Rightarrow> exn + bytes) \<Rightarrow> (int \<times> int) list \<Rightarrow> module list \<Rightarrow>
   exn + (memory_info list \<times> memory64 list)" where
  "read_memory_fast rd ranges module_list = read_and_fill rd (operations module_list ranges) [] []"

text \<open>
  Modelled from the spec: the \<open>read\<close> of the address space of the process belongs to Rekall,
  which is not part of the sources.  By the comment in \<open>read_memory_fast\<close> (Rekall will fill
  with zeros if the read fails) and section 4.1, a range that cannot be read comes back as
  zero bytes of the length asked for; \<open>underlying\<close> is the read that may fail.
\<close>

definition zero_filling_read :: "(int \<Rightarrow> int \<Rightarrow> bytes option) \<Rightarrow> int \<Rightarrow> int \<Rightarrow> exn + bytes" where
  "zero_filling_read underlying start size' =
     (case underlying start size' of
        Some data \<Rightarrow> Inr data
      | None \<Rightarrow> Inr (replicate (nat size') 0))"

text \<open>
  An interval in normal form: every atomic interval is non-empty, and each one ends before
  the next one starts, with a gap.
\<close>

definition normal :: "interval \<Rightarrow> bool" where
  "normal i \<longleftrightarrow> list_all (\<lambda>a. fst a < snd a) i \<and> sorted_wrt (\<lambda>a b. snd a < fst b) i"

text \<open>The addresses claimed by the modules, and the addresses of the live ranges.\<close>

definition module_addresses :: "module list \<Rightarrow> int set" where
  "module_addresses module_list =
     (\<Union>m\<in>set module_list. {fst (snd m)..<fst (snd m) + snd (snd m)})"

definition live_addresses :: "(int \<times> int) list \<Rightarrow> int set" where
  "live_addresses ranges = (\<Union>r\<in>set ranges. {fst r..<snd r})"

text \<open>The addresses of an operation, and of a list of operations.\<close>

definition operation_addresses :: "operation \<Rightarrow> int set" where
  "operation_addresses x = {a. fst x \<le> Fin a \<and> Fin a < fst (snd x)}"

definition covered :: "operation list \<Rightarrow> int set" where
  "covered ops = (\<Union>x\<in>set ops. operation_addresses x)"

text \<open>
  No two entries of a list of ranges, at different positions, share an address: each entry
  is disjoint from every later one.
\<close>

definition non_overlapping :: "int set list \<Rightarrow> bool" where
  "non_overlapping rs = sorted_wrt (\<lambda>a b. a \<inter> b = {}) rs"

text \<open>The addresses that an \<open>IntervalDict\<close> gives to a value.\<close>

definition dict_addresses :: "IntervalDict \<Rightarrow> string \<Rightarrow> int set" where
  "dict_addresses d v = (\<Union>item\<in>set d. if snd item = v then addresses (fst item) else {})"

text \<open>The addresses that a module claims: \<open>[base, base + size)\<close>.\<close>

definition module_span :: "module \<Rightarrow> int set" where
  "module_span m = {fst (snd m)..<fst (snd m) + snd (snd m)}"

section \<open>read\_memoryinfo, read\_modulelist, read\_systeminfo\<close>

record vad =
  vad_start :: "int option"
  vad_end :: int
  vad_protect :: int
  vad_type :: string

definition MEM_MAPPED :: int where
  "MEM_MAPPED = 0x40000"

definition MEM_PRIVATE :: int where
  "MEM_PRIVATE = 0x20000"

definition read_memoryinfo :: "vad list \<Rightarrow> memory_info list" where
  "read_memoryinfo vaddump =
     fold (\<lambda>d memoryinfo_list.
             case vad_start d of
               None \<Rightarrow> memoryinfo_list
             | Some start \<Rightarrow>
                 memoryinfo_list @
                 [\<lparr>BaseAddress = start, AllocationBase = 0, AllocationProtect = vad_protect d,
                   RegionSize = vad_end d - start + 1, Protect = vad_protect d, State = 0,
                   Type = (if vad_type d = ''Mapped'' then MEM_MAPPED
                           else if vad_type d = ''Private'' then MEM_PRIVATE else 0)\<rparr>])
          vaddump []"

definition read_modulelist :: "(string option \<times> int \<times> int) list \<Rightarrow> module list" where
  "read_modulelist dlllist =
     fold (\<lambda>(dll_path, base, size') module_list.
             case dll_path of
               None \<Rightarrow> module_list
             | Some path \<Rightarrow>
                 if length path > 1 then module_list @ [(path, base, size')] else module_list)
          dlllist []"

record systeminfo =
  MajorVersion :: int
  MinorVersion :: int
  BuildNumber :: int

definition read_systeminfo :: "int \<Rightarrow> int \<Rightarrow> int \<Rightarrow> systeminfo" where
  "read_systeminfo major minor build =
     \<lparr>MajorVersion = major, MinorVersion = minor, BuildNumber = build\<rparr>"

section \<open>The environment of a run\<close>

text \<open>
  What the collaborators answer during one run: the file system's answers to
  \<open>os.path.exists\<close> for the input files, the content of \<open>config.json\<close>, the rows of the
  Rekall plugins, the two reads, the date and the builder of the container.
\<close>

record config =
  config_image :: "string option"
  config_dtb :: "int option"
  config_kernel_base :: "int option"
  config_build :: "int option"

record minidump =
  md_systeminfo :: "systeminfo option"
  md_memoryinfo_list :: "memory_info list"
  md_memory64 :: "memory64 list"
  md_module_list :: "module list"
  md_secure_world :: "bytes option"

record env =
  path_exists :: "nat \<Rightarrow> string \<Rightarrow> bool"
  config_json :: config
  pslist_active :: "(string \<times> int) list"
  pslist_all :: "(string \<times> int) list"
  phys_map :: "(int \<times> int \<times> int) list"
  MmPfnDatabase :: "int \<Rightarrow> pfn_obj"
  base_read :: "int \<Rightarrow> int \<Rightarrow> exn + bytes"
  profile_major :: int
  profile_minor :: int
  imageinfo :: "(string \<times> int) list"
  dlllist :: "int \<Rightarrow> (string option \<times> int \<times> int) list"
  address_ranges :: "(int \<times> int) list"
  addr_space_read :: "int \<Rightarrow> int \<Rightarrow> exn + bytes"
  today :: string
  minidump_build :: "minidump \<Rightarrow> bytes"

text \<open>
  What a run changes: the seconds slept, the directories and files below the working
  directory, and the number of Rekall sessions opened.
\<close>

record world =
  clock :: nat
  dirs :: "string list"
  files :: "(string \<times> bytes) list"
  sessions :: nat

text \<open>
  \<open>open(filepath, 'wb')\<close> followed by \<open>write\<close>: Python raises \<open>FileNotFoundError\<close> when
  the directory of the path does not exist.
\<close>

definition dirname :: "string \<Rightarrow> string" where
  "dirname p =
     (if CHR ''/'' \<in> set p then rev (tl (dropWhile (\<lambda>c. c \<noteq> CHR ''/'') (rev p))) else [])"

definition open_wb :: "string \<Rightarrow> bytes \<Rightarrow> world \<Rightarrow> (exn + unit) \<times> world" where
  "open_wb filepath data w =
     (if dirname filepath = [] \<or> dirname filepath \<in> set (dirs w)
      then (Inr (), w\<lparr>files := (filepath, data) # filter (\<lambda>(p, c). p \<noteq> filepath) (files w)\<rparr>)
      else (Inl (FileNotFoundError filepath), w))"

text \<open>
  Modelled from the spec: \<open>os.path.splitext\<close> is Python's (the POSIX one here), not part of
  the sources: the extension starts at the last dot of the last component of the path,
  unless that component has only dots before it.
\<close>

definition rfind :: "char \<Rightarrow> string \<Rightarrow> int" where
  "rfind c p =
     (case filter (\<lambda>i. p ! i = c) (rev [0..<length p]) of
        [] \<Rightarrow> - 1
      | i # _ \<Rightarrow> int i)"

definition splitext :: "string \<Rightarrow> string \<times> string" where
  "splitext p =
     (let sepIndex = rfind CHR ''/'' p;
          dotIndex = rfind CHR ''.'' p
      in if dotIndex > sepIndex
            \<and> list_ex (\<lambda>i. p ! i \<noteq> CHR ''.'') [nat (sepIndex + 1)..<nat dotIndex]
         then (take (nat dotIndex) p, drop (nat dotIndex) p)
         else (p, []))"

text \<open>\<open>str.lower\<close> on the ASCII letters.\<close>

definition lower_char :: "char \<Rightarrow> char" where
  "lower_char c =
     (if CHR ''A'' \<le> c \<and> c \<le> CHR ''Z'' then char_of (of_char c + (32::nat)) else c)"

definition lower :: "string \<Rightarrow> string" where
  "lower s = map lower_char s"

text \<open>The truth value of \<open>vmem\<close>: \<open>None\<close> and the empty string are false.\<close>

definition truthy :: "string option \<Rightarrow> string option" where
  "truthy vmem = (case vmem of None \<Rightarrow> None | Some p \<Rightarrow> if p = [] then None else Some p)"

section \<open>The orchestrator\<close>

text \<open>
  \<open>_cg\<close> (named \<open>cg\<close> here, a name cannot start with an underscore): the scan, the reads,
  and the write of the blob, which opens the file in \<open>output\<close> as it finds it.
\<close>

definition cg :: "env \<Rightarrow> string \<Rightarrow> string \<Rightarrow> world \<Rightarrow> (exn + bytes) \<times> world" where
  "cg s vmem_filepath label w =
     (let image_size = image_size_of (phys_map s);
          secure_world_pages = find_secure_world_pages (MmPfnDatabase s) image_size
      in case read_secure_world (base_read s) secure_world_pages of
           Inl e \<Rightarrow> (Inl e, w)
         | Inr secure_world \<Rightarrow>
             (let filepath = ''output/'' @ label @ ''-'' @ today s @ ''-secure-world.raw''
              in case open_wb filepath secure_world w of
                   (Inl e, w') \<Rightarrow> (Inl e, w')
                 | (Inr u, w') \<Rightarrow> (Inr secure_world, w')))"

text \<open>Lines 214 to 228 of \<open>_dump\<close>: the configuration.\<close>

definition load_config :: "env \<Rightarrow> string option \<Rightarrow> world \<Rightarrow> (exn + config) \<times> world" where
  "load_config s vmem w =
     (case truthy vmem of
        Some p \<Rightarrow>
          (case splitext p of (image_base, image_ext) \<Rightarrow>
             if image_ext \<noteq> ''.vmem'' then (Inl (SystemExit 1), w)
             else (Inr \<lparr>config_image = Some p, config_dtb = None, config_kernel_base = None,
                        config_build = None\<rparr>, w))
      | None \<Rightarrow>
          (case ensureFileExist (path_exists s) ''config.json'' (clock w) of
             (Inl e, t) \<Rightarrow> (Inl e, w\<lparr>clock := t\<rparr>)
           | (Inr u, t) \<Rightarrow> (Inr (config_json s), w\<lparr>clock := t\<rparr>)))"

text \<open>Lines 230 to 243: wait for the image, open the session.\<close>

definition open_session :: "env \<Rightarrow> config \<Rightarrow> world \<Rightarrow> (exn + unit) \<times> world" where
  "open_session s cfg w =
     (case config_image cfg of
        None \<Rightarrow> (Inl (KeyError ''image''), w)
      | Some path \<Rightarrow>
          (case ensureFileExist (path_exists s) path (clock w) of
             (Inl e, t) \<Rightarrow> (Inl e, w\<lparr>clock := t\<rparr>)
           | (Inr u, t) \<Rightarrow> (Inr (), w\<lparr>clock := t, sessions := sessions w + 1\<rparr>)))"

text \<open>Lines 247 to 256: the first row named \<open>lsass.exe\<close>, or exit status 1.\<close>

definition find_lsass :: "env \<Rightarrow> exn + int" where
  "find_lsass s =
     (case find (\<lambda>(name, pid). lower name = ''lsass.exe'') (pslist_active s) of
        None \<Rightarrow> Inl (SystemExit 1)
      | Some (name, pid) \<Rightarrow> Inr pid)"

text \<open>Lines 267 to 277: Credential Guard, and the secure world when the image is local.\<close>

definition check_credential_guard ::
  "env \<Rightarrow> string \<Rightarrow> string option \<Rightarrow> minidump \<Rightarrow> world \<Rightarrow> (exn + minidump) \<times> world" where
  "check_credential_guard s label vmem md w =
     (if list_ex (\<lambda>(name, pid). lower name = ''lsaiso.exe'') (pslist_all s) then
        (case truthy vmem of
           Some p \<Rightarrow>
             (case cg s p label w of
                (Inl e, w') \<Rightarrow> (Inl e, w')
              | (Inr secure_world, w') \<Rightarrow> (Inr (md\<lparr>md_secure_world := Some secure_world\<rparr>), w'))
         | None \<Rightarrow> (Inr md, w))
      else (Inr md, w))"

text \<open>
  Lines 279 to 288: the build number, from the configuration or from the first row of
  \<open>imageinfo\<close> with the key \<open>NT Build\<close> (the rows carry the number already parsed),
  and 0 when there is neither.
\<close>

definition find_build :: "env \<Rightarrow> config \<Rightarrow> int" where
  "find_build s cfg =
     (case config_build cfg of
        Some b \<Rightarrow> b
      | None \<Rightarrow>
          (case find (\<lambda>(key, v). key = ''NT Build'') (imageinfo s) of
             None \<Rightarrow> 0
           | Some (key, v) \<Rightarrow> v))"

text \<open>Lines 305 to 310: create \<open>output\<close> if it is absent, then write the container.\<close>

definition persist :: "env \<Rightarrow> string \<Rightarrow> bytes \<Rightarrow> world \<Rightarrow> (exn + unit) \<times> world" where
  "persist s label data w =
     (let w' = (if ''output'' \<notin> set (dirs w) then w\<lparr>dirs := ''output'' # dirs w\<rparr> else w);
          filepath = ''output/'' @ label @ ''-'' @ today s @ ''-lsass.dmp''
      in open_wb filepath data w')"

text \<open>Lines 290 to 303: collect, and hand everything to the builder.\<close>

definition collect :: "env \<Rightarrow> config \<Rightarrow> int \<Rightarrow> minidump \<Rightarrow> exn + minidump" where
  "collect s cfg lsass_pid md =
     (let build = find_build s cfg;
          systeminfo = read_systeminfo (profile_major s) (profile_minor s) build;
          module_list = read_modulelist (dlllist s lsass_pid)
      in case read_memory_fast (addr_space_read s) (address_ranges s) module_list of
           Inl e \<Rightarrow> Inl e
         | Inr (memoryinfo_list, memory64_list) \<Rightarrow>
             Inr (md\<lparr>md_systeminfo := Some systeminfo, md_memoryinfo_list := memoryinfo_list,
                      md_memory64 := memory64_list, md_module_list := module_list\<rparr>))"

text \<open>
  \<open>_dump\<close> (named \<open>dump_body\<close> here).  The source returns nothing; the model returns the
  \<open>Minidump\<close> object it has filled, so that its content can be stated.
\<close>

definition dump_body :: "env \<Rightarrow> string \<Rightarrow> string option \<Rightarrow> world \<Rightarrow> (exn + minidump) \<times> world" where
  "dump_body s label vmem w =
     (let md = \<lparr>md_systeminfo = None, md_memoryinfo_list = [], md_memory64 = [],
                md_module_list = [], md_secure_world = None\<rparr>
      in case load_config s vmem w of
           (Inl e, w1) \<Rightarrow> (Inl e, w1)
         | (Inr cfg, w1) \<Rightarrow>
        (case open_session s cfg w1 of
           (Inl e, w2) \<Rightarrow> (Inl e, w2)
         | (Inr u, w2) \<Rightarrow>
        (case find_lsass s of
           Inl e \<Rightarrow> (Inl e, w2)
         | Inr lsass_pid \<Rightarrow>
        (case check_credential_guard s label vmem md w2 of
           (Inl e, w3) \<Rightarrow> (Inl e, w3)
         | (Inr md1, w3) \<Rightarrow>
        (case collect s cfg lsass_pid md1 of
           Inl e \<Rightarrow> (Inl e, w3)
         | Inr md2 \<Rightarrow>
        (case persist s label (minidump_build s md2) w3 of
           (Inl e, w4) \<Rightarrow> (Inl e, w4)
         | (Inr u, w4) \<Rightarrow> (Inr md2, w4)))))))"

text \<open>\<open>dump\<close>: only \<open>KeyboardInterrupt\<close> is caught.\<close>

definition dump :: "env \<Rightarrow> string \<Rightarrow> string option \<Rightarrow> world \<Rightarrow> (exn + unit) \<times> world" where
  "dump s label vmem w =
     (case dump_body s label vmem w of
        (Inl KeyboardInterrupt, w') \<Rightarrow> (Inr (), w')
      | (Inl e, w') \<Rightarrow> (Inl e, w')
      | (Inr md, w') \<Rightarrow> (Inr (), w'))"

text \<open>
  The exit status of a Python process whose last action is the call of \<open>dump\<close>: 0 after a
  normal return, the argument of \<open>sys.exit\<close>, and 1 after any other exception that nobody
  catches.
\<close>

definition exit_status :: "exn + unit \<Rightarrow> int" where
  "exit_status r =
     (case r of
        Inr u \<Rightarrow> 0
      | Inl (SystemExit n) \<Rightarrow> n
      | Inl e \<Rightarrow> 1)"


text \<open>
  The two conditions under which \<open>_dump\<close> calls \<open>sys.exit(1)\<close>, as tests on the inputs:
  a local image path whose extension is not \<open>.vmem\<close>, and no \<open>lsass.exe\<close> among the
  enumerated processes; and the test for the helper process of Credential Guard.
\<close>

definition bad_extension :: "string option \<Rightarrow> bool" where
  "bad_extension vmem =
     (case truthy vmem of None \<Rightarrow> False | Some p \<Rightarrow> snd (splitext p) \<noteq> ''.vmem'')"

definition lsass_absent :: "env \<Rightarrow> bool" where
  "lsass_absent s = (find (\<lambda>(name, pid). lower name = ''lsass.exe'') (pslist_active s) = None)"


section \<open>Sample inputs\<close>

text \<open>A page-frame database of which pages 3 and 7 pass the test.\<close>

definition db10 :: "int \<Rightarrow> pfn_obj" where
  "db10 pfn =
     (if pfn = 3 \<or> pfn = 7 then \<lparr>ReferenceCount = 2, ShareCount = 1, PteAddress = 0\<rparr>
      else \<lparr>ReferenceCount = 1, ShareCount = 1, PteAddress = 0\<rparr>)"

text \<open>A physical read that answers one byte, the number of the page.\<close>

definition page_number_read :: "int \<Rightarrow> int \<Rightarrow> exn + bytes" where
  "page_number_read addr n = Inr [word_of_int (addr div 4096)]"

text \<open>An underlying read that knows only the range starting at 5.\<close>

definition rd0 :: "int \<Rightarrow> int \<Rightarrow> bytes option" where
  "rd0 start size' = (if start = 5 then Some [1, 2, 3] else None)"

text \<open>
  A run on a local image: ten physical pages, \<open>lsass.exe\<close> with one module and one live
  range, and the helper process of Credential Guard in the full enumeration.
\<close>

definition env0 :: env where
  "env0 =
     \<lparr>path_exists = (\<lambda>t p. True),
      config_json = \<lparr>config_image = Some ''remote.raw'', config_dtb = None,
                      config_kernel_base = None, config_build = Some 19041\<rparr>,
      pslist_active = [(''System'', 4), (''lsass.exe'', 620)],
      pslist_all = [(''System'', 4), (''LsaIso.exe'', 600), (''lsass.exe'', 620)],
      phys_map = [(0, 40960, 10)],
      MmPfnDatabase = db10,
      base_read = page_number_read,
      profile_major = 10,
      profile_minor = 0,
      imageinfo = [(''NT Build'', 19041)],
      dlllist = (\<lambda>pid. [(Some ''lsass.exe'', 0, 10)]),
      address_ranges = [(5, 8)],
      addr_space_read = zero_filling_read rd0,
      today = ''2020-01-01'',
      minidump_build = (\<lambda>md. [77, 68, 77, 80])\<rparr>"

text \<open>A working directory without \<open>output\<close>, and one with it.\<close>

definition w0 :: world where
  "w0 = \<lparr>clock = 0, dirs = [], files = [], sessions = 0\<rparr>"

definition w1 :: world where
  "w1 = \<lparr>clock = 0, dirs = [''output''], files = [], sessions = 0\<rparr>"

text \<open>The same run with a physical read that fails at the second secure-world page.\<close>

definition failing_read :: "exn \<Rightarrow> int \<Rightarrow> int \<Rightarrow> exn + bytes" where
  "failing_read e addr n = (if addr = 28672 then Inl e else page_number_read addr n)"

definition env_fail :: "exn \<Rightarrow> env" where
  "env_fail e = env0\<lparr>base_read := failing_read e\<rparr>"

text \<open>A remote run whose \<open>config.json\<close> never appears.\<close>

definition env_missing :: env where
  "env_missing = env0\<lparr>path_exists := (\<lambda>t p. False)\<rparr>"

text \<open>A run without \<open>lsass.exe\<close>, and one without Credential Guard.\<close>

definition env_no_lsass :: env where
  "env_no_lsass = env0\<lparr>pslist_active := [(''System'', 4)]\<rparr>"

definition env_no_cg :: env where
  "env_no_cg = env0\<lparr>pslist_all := [(''System'', 4), (''lsass.exe'', 620)]\<rparr>"

definition cfg_local :: config where
  "cfg_local = \<lparr>config_image = Some ''mem.vmem'', config_dtb = None, config_kernel_base = None,
                 config_build = None\<rparr>"

text \<open>What the local run leaves when \<open>output\<close> exists: the object handed to the builder and the world.\<close>

definition md_sample :: minidump where
  "md_sample =
     \<lparr>md_systeminfo = Some \<lparr>MajorVersion = 10, MinorVersion = 0, BuildNumber = 19041\<rparr>,
      md_memoryinfo_list = map region_of [(Fin 0, Fin 5, ''pad''), (Fin 5, Fin 8, ''mem''), (Fin 8, Fin 10, ''pad'')],
      md_memory64 = [(0, 5, [0, 0, 0, 0, 0]), (5, 3, [1, 2, 3]), (8, 2, [0, 0])],
      md_module_list = [(''lsass.exe'', 0, 10)],
      md_secure_world = Some [3, 7]\<rparr>"

definition w_sample :: world where
  "w_sample =
     \<lparr>clock = 0, dirs = [''output''],
      files = [(''output/x-2020-01-01-lsass.dmp'', [77, 68, 77, 80]),
               (''output/x-2020-01-01-secure-world.raw'', [3, 7])],
      sessions = 1\<rparr>"


section \<open>Properties of ensureFileExist\<close>

lemma ensureFileExist_loop_found:
  "k < n \<Longrightarrow> ex (t + k) path \<Longrightarrow> (\<forall>j<k. \<not> ex (t + j) path) \<Longrightarrow>
   ensureFileExist_loop ex path n t = (Inr (), t + k)"
proof (induction n arbitrary: t k)
  case 0
  then show ?case by simp
next
  case (Suc n)
  show ?case
  proof (cases k)
    case 0
    with Suc.prems show ?thesis by simp
  next
    case (Suc k')
    from Suc.prems Suc have no: "\<not> ex t path" by force
    have "ensureFileExist_loop ex path n (t + 1) = (Inr (), (t + 1) + k')"
    proof (rule Suc.IH)
      show "k' < n" using Suc.prems Suc by simp
      show "ex (t + 1 + k') path" using Suc.prems Suc by simp
      show "\<forall>j<k'. \<not> ex (t + 1 + j) path"
      proof (intro allI impI)
        fix j assume "j < k'"
        then have "Suc j < k" using Suc by simp
        with Suc.prems have "\<not> ex (t + Suc j) path" by blast
        then show "\<not> ex (t + 1 + j) path" by simp
      qed
    qed
    with no Suc show ?thesis by simp
  qed
qed

lemma ensureFileExist_loop_missing:
  "(\<forall>j<n. \<not> ex (t + j) path) \<Longrightarrow>
   ensureFileExist_loop ex path n t = (Inl (Exception (''File does not exist: '' @ path)), t + n)"
proof (induction n arbitrary: t)
  case 0
  then show ?case by simp
next
  case (Suc n)
  from Suc.prems have no: "\<not> ex t path" by force
  have "\<forall>j<n. \<not> ex (t + 1 + j) path"
  proof (intro allI impI)
    fix j assume "j < n"
    then have "Suc j < Suc n" by simp
    with Suc.prems have "\<not> ex (t + Suc j) path" by blast
    then show "\<not> ex (t + 1 + j) path" by simp
  qed
  from Suc.IH [OF this] no show ?case by simp
qed

lemma ensureFileExist_loop_raises_iff:
  "(\<exists>e. fst (ensureFileExist_loop ex path n t) = Inl e) \<longleftrightarrow> (\<forall>j<n. \<not> ex (t + j) path)"
proof (induction n arbitrary: t)
  case 0
  then show ?case by simp
next
  case (Suc n)
  show ?case
  proof (cases "ex t path")
    case True
    then have "\<not> (\<forall>j<Suc n. \<not> ex (t + j) path)" by force
    with True show ?thesis by simp
  next
    case False
    have "(\<forall>j<Suc n. \<not> ex (t + j) path) \<longleftrightarrow> (\<forall>j<n. \<not> ex (t + 1 + j) path)"
    proof
      assume a: "\<forall>j<Suc n. \<not> ex (t + j) path"
      show "\<forall>j<n. \<not> ex (t + 1 + j) path"
      proof (intro allI impI)
        fix j assume "j < n"
        then have "Suc j < Suc n" by simp
        with a have "\<not> ex (t + Suc j) path" by blast
        then show "\<not> ex (t + 1 + j) path" by simp
      qed
    next
      assume a: "\<forall>j<n. \<not> ex (t + 1 + j) path"
      show "\<forall>j<Suc n. \<not> ex (t + j) path"
      proof (intro allI impI)
        fix j assume j: "j < Suc n"
        show "\<not> ex (t + j) path"
        proof (cases j)
          case 0
          with False show ?thesis by simp
        next
          case (Suc j')
          with j have "j' < n" by simp
          with a have "\<not> ex (t + 1 + j') path" by blast
          with Suc show ?thesis by simp
        qed
      qed
    qed
    with False Suc.IH [of "t + 1"] show ?thesis by simp
  qed
qed

text \<open>
  Claim C7.  \<open>ensureFileExist\<close> checks the path at most 120 times and sleeps one second
  after each failed check.  It returns normally at the first check that finds the file
  (after as many sleeps as there were failed checks before it), and it raises
  \<open>Exception('File does not exist: ' + path)\<close>, after 120 sleeps, if and only if none of
  the 120 checks finds the file.
\<close>

theorem ensureFileExist_polls:
  "(\<forall>k<120. ex (t + k) path \<longrightarrow> (\<forall>j<k. \<not> ex (t + j) path) \<longrightarrow>
       ensureFileExist ex path t = (Inr (), t + k))
   \<and> ((\<forall>k<120. \<not> ex (t + k) path) \<longrightarrow>
       ensureFileExist ex path t =
         (Inl (Exception (''File does not exist: '' @ path)), t + 120))
   \<and> ((\<exists>e. fst (ensureFileExist ex path t) = Inl e) \<longleftrightarrow> (\<forall>k<120. \<not> ex (t + k) path))"
  unfolding ensureFileExist_def
  using ensureFileExist_loop_found [of _ 120 ex t path]
        ensureFileExist_loop_missing [of 120 ex t path]
        ensureFileExist_loop_raises_iff [of ex path 120 t]
  by blast

theorem ensureFileExist_polls_witness:
  "ensureFileExist (\<lambda>t p. 3 \<le> t) ''config.json'' 0 = (Inr (), 3)
   \<and> ensureFileExist (\<lambda>t p. False) ''config.json'' 0 =
       (Inl (Exception ''File does not exist: config.json''), 120)"
proof -
  let ?ex = "\<lambda>(t::nat) (p::string). 3 \<le> t"
  have a: "ensureFileExist ?ex ''config.json'' 0 = (Inr (), 0 + 3)"
    using ensureFileExist_polls [of ?ex 0 "''config.json''"] by force
  have b: "ensureFileExist (\<lambda>t p. False) ''config.json'' 0 =
             (Inl (Exception (''File does not exist: '' @ ''config.json'')), 0 + 120)"
    using ensureFileExist_polls [of "\<lambda>t p. False" 0 "''config.json''"] by blast
  from a b show ?thesis by simp
qed

section \<open>The secure-world scan\<close>

lemma scan_fold:
  "fold (\<lambda>pfn acc. if P pfn then acc @ [f pfn] else acc) xs acc0 = acc0 @ map f (filter P xs)"
  by (induction xs arbitrary: acc0) simp_all

lemma read_secure_world_loop_ok:
  "(\<forall>addr\<in>set pages. rd addr 4096 = Inr (content addr)) \<Longrightarrow>
   read_secure_world_loop rd pages acc = Inr (acc @ map content pages)"
  by (induction pages arbitrary: acc) simp_all

lemma image_size_of_last:
  "image_size_of rows = (if rows = [] then 0 else fst (snd (last rows)))"
proof -
  have "fold (\<lambda>(start, end', count) image_size. end') rows acc =
        (if rows = [] then acc else fst (snd (last rows)))" for acc
    by (induction rows arbitrary: acc) (simp_all add: split_def)
  then show ?thesis by (simp add: image_size_of_def)
qed

lemma cg_blob:
  assumes "cg s p label w = (Inr blob, w')"
    and "\<forall>addr\<in>set (find_secure_world_pages (MmPfnDatabase s) (image_size_of (phys_map s))).
           base_read s addr 4096 = Inr (content addr)"
  shows "blob = concat (map content
           (find_secure_world_pages (MmPfnDatabase s) (image_size_of (phys_map s))))"
proof -
  let ?pages = "find_secure_world_pages (MmPfnDatabase s) (image_size_of (phys_map s))"
  from assms(2) have "read_secure_world_loop (base_read s) ?pages [] = Inr ([] @ map content ?pages)"
    by (rule read_secure_world_loop_ok)
  then have "read_secure_world (base_read s) ?pages = Inr (concat (map content ?pages))"
    by (simp add: read_secure_world_def)
  with assms(1) show ?thesis
    by (auto simp: cg_def Let_def split: prod.splits sum.splits)
qed

text \<open>
  Claim C3.  The scan tests every page-frame number from 0 up to (and not including)
  \<open>image_size div 4096\<close>, and its result is the list of \<open>pfn * 4096\<close>, in increasing order
  of \<open>pfn\<close>, for the pages with \<open>ReferenceCount = 2\<close>, \<open>ShareCount = 1\<close> and
  \<open>PteAddress = 0\<close>.  When every page read returns, the blob is the concatenation, in the
  order of the list, of what one read of 4096 bytes per address returned; with no address
  the blob is empty.  The blob that \<open>_cg\<close> returns is this concatenation over the result
  of its scan.
\<close>

theorem secure_world_scan:
  "find_secure_world_pages db image_size =
     map (\<lambda>pfn. pfn * 4096)
       (filter (\<lambda>pfn. ReferenceCount (db pfn) = 2 \<and> ShareCount (db pfn) = 1
                        \<and> PteAddress (db pfn) = 0)
          [0..image_size div 4096 - 1])
   \<and> ((\<forall>addr\<in>set pages. rd addr 4096 = Inr (content addr)) \<longrightarrow>
        read_secure_world rd pages = Inr (concat (map content pages)))
   \<and> (cg s p label w = (Inr blob, w') \<longrightarrow>
        (\<forall>addr\<in>set (find_secure_world_pages (MmPfnDatabase s) (image_size_of (phys_map s))).
           base_read s addr 4096 = Inr (content addr)) \<longrightarrow>
        blob = concat (map content
                 (find_secure_world_pages (MmPfnDatabase s) (image_size_of (phys_map s)))))"
proof (intro conjI impI)
  show "find_secure_world_pages db image_size =
     map (\<lambda>pfn. pfn * 4096)
       (filter (\<lambda>pfn. ReferenceCount (db pfn) = 2 \<and> ShareCount (db pfn) = 1
                        \<and> PteAddress (db pfn) = 0)
          [0..image_size div 4096 - 1])"
    unfolding find_secure_world_pages_def scan_fold
    by (simp add: is_secure_world_page_def PAGE_SIZE_def PAGE_BITS_def push_bit_eq_mult)
next
  assume "\<forall>addr\<in>set pages. rd addr 4096 = Inr (content addr)"
  then have "read_secure_world_loop rd pages [] = Inr ([] @ map content pages)"
    by (rule read_secure_world_loop_ok)
  then show "read_secure_world rd pages = Inr (concat (map content pages))"
    by (simp add: read_secure_world_def)
next
  assume "cg s p label w = (Inr blob, w')"
    and "\<forall>addr\<in>set (find_secure_world_pages (MmPfnDatabase s) (image_size_of (phys_map s))).
           base_read s addr 4096 = Inr (content addr)"
  then show "blob = concat (map content
                 (find_secure_world_pages (MmPfnDatabase s) (image_size_of (phys_map s))))"
    by (rule cg_blob)
qed

theorem secure_world_scan_witness:
  "find_secure_world_pages db10 40960 = [12288, 28672]
   \<and> read_secure_world page_number_read [12288, 28672] = Inr [3, 7]
   \<and> find_secure_world_pages (\<lambda>pfn. \<lparr>ReferenceCount = 0, ShareCount = 0, PteAddress = 0\<rparr>) 40960 = []
   \<and> read_secure_world page_number_read [] = Inr []
   \<and> [3, 7] = concat (map (\<lambda>addr. [word_of_int (addr div 4096) :: byte])
                  (find_secure_world_pages (MmPfnDatabase env0) (image_size_of (phys_map env0))))"
proof -
  let ?content = "\<lambda>addr::int. [word_of_int (addr div 4096) :: byte]"
  let ?none = "\<lambda>pfn::int. \<lparr>ReferenceCount = 0, ShareCount = 0, PteAddress = 0\<rparr>"
  have r: "[0..40960 div 4096 - 1] = [0, 1, 2, 3, 4, 5, 6, 7, 8, 9::int]"
    by code_simp
  have g: "cg env0 ''mem.vmem'' ''x'' w1 = (Inr [3, 7], w1\<lparr>files := [(''output/x-2020-01-01-secure-world.raw'', [3, 7])]\<rparr>)"
    by code_simp
  have h: "\<forall>addr\<in>set (find_secure_world_pages (MmPfnDatabase env0) (image_size_of (phys_map env0))).
             base_read env0 addr 4096 = Inr (?content addr)"
    by (simp add: env0_def page_number_read_def)
  have a: "find_secure_world_pages db10 40960 = [12288, 28672]"
    using secure_world_scan [of db10 40960 "[]" page_number_read ?content env0 "''mem.vmem''" "''x''" w1]
    unfolding r by (simp add: db10_def)
  have c: "find_secure_world_pages ?none 40960 = []"
    using secure_world_scan [of ?none 40960 "[]" page_number_read ?content env0 "''mem.vmem''" "''x''" w1]
    by simp
  have b: "read_secure_world page_number_read [12288, 28672] = Inr [3, 7]"
    using secure_world_scan [of db10 40960 "[12288, 28672]" page_number_read ?content env0 "''mem.vmem''" "''x''" w1]
    by (simp add: page_number_read_def)
  have d: "read_secure_world page_number_read [] = Inr []"
    using secure_world_scan [of db10 40960 "[]" page_number_read ?content env0 "''mem.vmem''" "''x''" w1]
    by simp
  have e: "[3, 7] = concat (map ?content
             (find_secure_world_pages (MmPfnDatabase env0) (image_size_of (phys_map env0))))"
    using secure_world_scan [of db10 40960 "[]" page_number_read ?content env0 "''mem.vmem''" "''x''" w1
                                "[3, 7]" "w1\<lparr>files := [(''output/x-2020-01-01-secure-world.raw'', [3, 7])]\<rparr>"]
          g h by blast
  from a b c d e show ?thesis by blast
qed

section \<open>Reading and filling\<close>

lemma read_and_fill_infinite:
  "\<not> finite_operation x \<Longrightarrow>
   read_and_fill rd (x # ops) mil m64 = Inl (TypeError ''unsupported operand type(s) for -'')"
proof -
  obtain s e k where x: "x = (s, e, k)" by (cases x)
  assume "\<not> finite_operation x"
  then show ?thesis unfolding x by (cases s; cases e) simp_all
qed

lemma read_and_fill_finite:
  "finite_operation x \<Longrightarrow>
   read_and_fill rd (x # ops) mil m64 =
     (case rd (operation_start x) (operation_size x) of
        Inl e \<Rightarrow> Inl e
      | Inr data \<Rightarrow>
          read_and_fill rd ops (mil @ [region_of x])
            (m64 @ [(operation_start x, operation_size x, data)]))"
proof -
  obtain s e k where x: "x = (s, e, k)" by (cases x)
  assume "finite_operation x"
  then show ?thesis unfolding x
    by (cases s; cases e) (simp_all add: Let_def region_of_def split: sum.splits)
qed

lemma read_and_fill_Inr:
  "read_and_fill rd ops mil m64 = Inr (a, b) \<Longrightarrow>
   list_all finite_operation ops
   \<and> a = mil @ map region_of ops
   \<and> map (\<lambda>(start, size', data). (start, size')) b =
       map (\<lambda>(start, size', data). (start, size')) m64
       @ map (\<lambda>x. (operation_start x, operation_size x)) ops
   \<and> map (\<lambda>(start, size', data). (start, size', Inr data)) b =
       map (\<lambda>(start, size', data). (start, size', Inr data)) m64
       @ map (\<lambda>x. (operation_start x, operation_size x,
                   rd (operation_start x) (operation_size x))) ops"
proof (induction ops arbitrary: mil m64)
  case Nil
  then show ?case by simp
next
  case (Cons x ops)
  have fin: "finite_operation x"
  proof (rule ccontr)
    assume "\<not> finite_operation x"
    from read_and_fill_infinite [OF this] Cons.prems show False by simp
  qed
  from Cons.prems obtain data where d: "rd (operation_start x) (operation_size x) = Inr data"
    by (auto simp: read_and_fill_finite [OF fin] split: sum.splits)
  with Cons.prems have
    "read_and_fill rd ops (mil @ [region_of x])
       (m64 @ [(operation_start x, operation_size x, data)]) = Inr (a, b)"
    by (simp add: read_and_fill_finite [OF fin])
  from Cons.IH [OF this] d fin show ?case by simp
qed



lemma read_and_fill_type_error:
  "list_all finite_operation pre \<Longrightarrow>
   (\<forall>y\<in>set pre. \<exists>d. rd (operation_start y) (operation_size y) = Inr d) \<Longrightarrow>
   \<not> finite_operation x \<Longrightarrow>
   read_and_fill rd (pre @ x # post) mil m64 =
     Inl (TypeError ''unsupported operand type(s) for -'')"
proof (induction pre arbitrary: mil m64)
  case Nil
  then show ?case by (simp add: read_and_fill_infinite)
next
  case (Cons y pre)
  from Cons.prems have fin: "finite_operation y" and rest: "list_all finite_operation pre"
    by simp_all
  from Cons.prems obtain d where d: "rd (operation_start y) (operation_size y) = Inr d"
    by auto
  from Cons.prems have "\<forall>y\<in>set pre. \<exists>d. rd (operation_start y) (operation_size y) = Inr d"
    by simp
  from Cons.IH [OF rest this Cons.prems(3)] d show ?case
    by (simp add: read_and_fill_finite [OF fin])
qed

lemma read_and_fill_error:
  "read_and_fill rd ops mil m64 = Inl e \<Longrightarrow>
   (\<exists>a n. rd a n = Inl e) \<or> e = TypeError ''unsupported operand type(s) for -''"
proof (induction ops arbitrary: mil m64)
  case Nil
  then show ?case by simp
next
  case (Cons x ops)
  show ?case
  proof (cases "finite_operation x")
    case False
    from read_and_fill_infinite [OF this] Cons.prems show ?thesis by simp
  next
    case True
    show ?thesis
    proof (cases "rd (operation_start x) (operation_size x)")
      case (Inl e')
      with Cons.prems have "e' = e" by (simp add: read_and_fill_finite [OF True])
      with Inl show ?thesis by blast
    next
      case (Inr data)
      with Cons.prems Cons.IH show ?thesis by (simp add: read_and_fill_finite [OF True])
    qed
  qed
qed

lemma operations_sample:
  "operations [(''a'', 0, 10)] [(5, 8)] =
     [(Fin 0, Fin 5, ''pad''), (Fin 5, Fin 8, ''mem''), (Fin 8, Fin 10, ''pad'')]"
  by code_simp

lemma operations_all_mapped:
  "operations [(''a'', 0, 10)] [(0, 10)] = [(Fin 0, Fin 10, ''mem''), (PInf, NInf, ''pad'')]"
  by code_simp

lemma read_memory_fast_all_mapped:
  "read_memory_fast (zero_filling_read rd0) [(0, 10)] [(''a'', 0, 10)] =
     Inl (TypeError ''unsupported operand type(s) for -'')"
  by (simp add: read_memory_fast_def operations_all_mapped zero_filling_read_def rd0_def)




text \<open>
  Claim C8.  Whenever \<open>read_memory_fast\<close> returns, the content blocks and the region
  records agree pairwise on \<open>(start, size)\<close>, and so the sizes of the blocks and the
  \<open>RegionSize\<close> of the regions have the same sum.
\<close>

theorem sizes_agree:
  "read_memory_fast rd ranges module_list = Inr (memoryinfo_list, memory64_list) \<Longrightarrow>
   (\<Sum>(start, size', data)\<leftarrow>memory64_list. size') = (\<Sum>mi\<leftarrow>memoryinfo_list. RegionSize mi)
   \<and> map (\<lambda>(start, size', data). (start, size')) memory64_list =
       map (\<lambda>mi. (BaseAddress mi, RegionSize mi)) memoryinfo_list"
proof -
  assume a: "read_memory_fast rd ranges module_list = Inr (memoryinfo_list, memory64_list)"
  let ?ops = "operations module_list ranges"
  from a have "read_and_fill rd ?ops [] [] = Inr (memoryinfo_list, memory64_list)"
    by (simp add: read_memory_fast_def)
  from read_and_fill_Inr [OF this]
  have mi: "memoryinfo_list = map region_of ?ops"
    and m64: "map (\<lambda>(start, size', data). (start, size')) memory64_list =
              map (\<lambda>x. (operation_start x, operation_size x)) ?ops"
    by simp_all
  have pairs: "map (\<lambda>(start, size', data). (start, size')) memory64_list =
       map (\<lambda>mi. (BaseAddress mi, RegionSize mi)) memoryinfo_list"
    unfolding m64 mi by (simp add: region_of_def)
  have "(\<Sum>(start, size', data)\<leftarrow>memory64_list. size') =
        sum_list (map snd (map (\<lambda>(start, size', data). (start, size')) memory64_list))"
    by (simp add: split_def comp_def)
  also have "\<dots> = sum_list (map snd (map (\<lambda>mi. (BaseAddress mi, RegionSize mi)) memoryinfo_list))"
    by (simp only: pairs)
  also have "\<dots> = (\<Sum>mi\<leftarrow>memoryinfo_list. RegionSize mi)"
    by (simp add: comp_def)
  finally show ?thesis using pairs by simp
qed

theorem sizes_agree_witness:
  "(\<Sum>(start, size', data)\<leftarrow>[(0, 5, [0, 0, 0, 0, 0]), (5, 3, [1, 2, 3]), (8, 2, [0, 0::byte])]. size')
   = (\<Sum>mi\<leftarrow>map region_of [(Fin 0, Fin 5, ''pad''), (Fin 5, Fin 8, ''mem''), (Fin 8, Fin 10, ''pad'')]. RegionSize mi)"
proof -
  have "read_memory_fast (zero_filling_read rd0) [(5, 8)] [(''a'', 0, 10)] =
     Inr (map region_of [(Fin 0, Fin 5, ''pad''), (Fin 5, Fin 8, ''mem''), (Fin 8, Fin 10, ''pad'')],
          [(0, 5, [0, 0, 0, 0, 0]), (5, 3, [1, 2, 3]), (8, 2, [0, 0])])"
    by (simp add: read_memory_fast_def operations_sample zero_filling_read_def rd0_def
          region_of_def numeral_eq_Suc)
  from sizes_agree [OF this] show ?thesis by simp
qed

section \<open>The exceptions of a run\<close>

lemma ensureFileExist_loop_error:
  "fst (ensureFileExist_loop ex path n t) = Inl e \<Longrightarrow>
   e = Exception (''File does not exist: '' @ path)"
  by (induction n arbitrary: t) (auto split: if_splits)

lemma ensureFileExist_error:
  "ensureFileExist ex path t = (Inl e, t') \<Longrightarrow> e = Exception (''File does not exist: '' @ path)"
  using ensureFileExist_loop_error [of ex path 120 t e] by (simp add: ensureFileExist_def)


lemma read_secure_world_loop_error:
  "read_secure_world_loop rd pages acc = Inl e \<Longrightarrow> \<exists>a\<in>set pages. rd a 4096 = Inl e"
proof (induction pages arbitrary: acc)
  case Nil
  then show ?case by simp
next
  case (Cons a pages)
  show ?case
  proof (cases "rd a 4096")
    case (Inl e')
    with Cons.prems show ?thesis by simp
  next
    case (Inr d)
    with Cons.prems have "read_secure_world_loop rd pages (acc @ [d]) = Inl e" by simp
    from Cons.IH [OF this] show ?thesis by auto
  qed
qed

lemma read_secure_world_error:
  "read_secure_world rd pages = Inl e \<Longrightarrow> \<exists>a\<in>set pages. rd a 4096 = Inl e"
  using read_secure_world_loop_error [of rd pages "[]" e]
  by (auto simp: read_secure_world_def split: sum.splits)

lemma load_config_world:
  "load_config s vmem w = (r, w') \<Longrightarrow>
   files w' = files w \<and> dirs w' = dirs w \<and> sessions w' = sessions w"
  by (auto simp: load_config_def split: option.splits prod.splits if_splits sum.splits)

lemma open_session_world:
  "open_session s cfg w = (r, w') \<Longrightarrow> files w' = files w \<and> dirs w' = dirs w"
  by (auto simp: open_session_def split: option.splits prod.splits if_splits sum.splits)

lemma load_config_error:
  "load_config s vmem w = (Inl e, w') \<Longrightarrow>
   (e = SystemExit 1 \<and> bad_extension vmem \<and> w' = w)
   \<or> (e = Exception ''File does not exist: config.json'' \<and> truthy vmem = None)"
  by (auto simp: load_config_def bad_extension_def
           split: option.splits prod.splits if_splits sum.splits dest: ensureFileExist_error)

lemma load_config_bad_extension:
  "bad_extension vmem \<Longrightarrow> load_config s vmem w = (Inl (SystemExit 1), w)"
  by (auto simp: load_config_def bad_extension_def split: option.splits prod.splits)

lemma open_session_error:
  "open_session s cfg w = (Inl e, w') \<Longrightarrow> (\<forall>k. e \<noteq> SystemExit k) \<and> e \<noteq> KeyboardInterrupt"
  by (auto simp: open_session_def
           split: option.splits prod.splits if_splits sum.splits dest: ensureFileExist_error)

lemma find_lsass_error:
  "find_lsass s = Inl e \<longleftrightarrow> e = SystemExit 1 \<and> lsass_absent s"
  by (auto simp: find_lsass_def lsass_absent_def split: option.splits)

lemma open_wb_error:
  "open_wb filepath data w = (Inl e, w') \<Longrightarrow> e = FileNotFoundError filepath \<and> w' = w"
  by (auto simp: open_wb_def split: if_splits)

lemma cg_error:
  "cg s p label w = (Inl e, w') \<Longrightarrow>
   (\<exists>a n. base_read s a n = Inl e) \<or> (\<exists>path. e = FileNotFoundError path)"
  by (auto simp: cg_def Let_def split: sum.splits prod.splits
           dest!: read_secure_world_error open_wb_error)

lemma check_credential_guard_error:
  "check_credential_guard s label vmem md w = (Inl e, w') \<Longrightarrow>
   (\<exists>a n. base_read s a n = Inl e) \<or> (\<exists>path. e = FileNotFoundError path)"
  by (auto simp: check_credential_guard_def split: if_splits option.splits sum.splits prod.splits
           dest!: cg_error)

lemma collect_error:
  "collect s cfg pid md = Inl e \<Longrightarrow>
   (\<exists>a n. addr_space_read s a n = Inl e) \<or> (\<exists>msg. e = TypeError msg)"
proof -
  assume "collect s cfg pid md = Inl e"
  then have "read_and_fill (addr_space_read s)
               (operations (read_modulelist (dlllist s pid)) (address_ranges s)) [] [] = Inl e"
    by (simp add: collect_def Let_def read_memory_fast_def split: sum.splits prod.splits)
  from read_and_fill_error [OF this] show ?thesis by blast
qed

lemma persist_error:
  "persist s label data w = (Inl e, w') \<Longrightarrow> \<exists>path. e = FileNotFoundError path"
  by (auto simp: persist_def Let_def dest!: open_wb_error)

lemma dump_body_error:
  assumes "dump_body s label vmem w = (Inl e, w')"
  shows "(e = SystemExit 1 \<and> (bad_extension vmem \<or> lsass_absent s))
         \<or> (\<exists>msg. e = Exception msg) \<or> (\<exists>k. e = KeyError k) \<or> (\<exists>path. e = FileNotFoundError path)
         \<or> (\<exists>a n. base_read s a n = Inl e) \<or> (\<exists>a n. addr_space_read s a n = Inl e)
         \<or> (\<exists>msg. e = TypeError msg)"
proof -
  let ?md = "\<lparr>md_systeminfo = None, md_memoryinfo_list = [], md_memory64 = [],
                md_module_list = [], md_secure_world = None\<rparr>"
  obtain r1 wa where lc: "load_config s vmem w = (r1, wa)" by (cases "load_config s vmem w")
  show ?thesis
  proof (cases r1)
    case (Inl e1)
    with assms lc have "e1 = e" by (simp add: dump_body_def)
    with lc Inl load_config_error [of s vmem w e wa] show ?thesis by auto
  next
    case cfg: (Inr cfg)
    obtain r2 wb where os: "open_session s cfg wa = (r2, wb)" by (cases "open_session s cfg wa")
    show ?thesis
    proof (cases r2)
      case (Inl e2)
      with assms lc cfg os have e2: "e2 = e" by (simp add: dump_body_def)
      from os Inl e2 have "(\<exists>msg. e = Exception msg) \<or> (\<exists>k. e = KeyError k)"
        by (auto simp: open_session_def split: option.splits prod.splits sum.splits
                 dest: ensureFileExist_error)
      then show ?thesis by blast
    next
      case u: (Inr u)
      show ?thesis
      proof (cases "find_lsass s")
        case (Inl e3)
        with assms lc cfg os u have "e3 = e" by (simp add: dump_body_def)
        with Inl find_lsass_error [of s e] show ?thesis by simp
      next
        case pid: (Inr pid)
        obtain r4 wc where cc: "check_credential_guard s label vmem ?md wb = (r4, wc)"
          by (cases "check_credential_guard s label vmem ?md wb")
        show ?thesis
        proof (cases r4)
          case (Inl e4)
          with assms lc cfg os u pid cc have "e4 = e" by (simp add: dump_body_def)
          with cc Inl check_credential_guard_error [of s label vmem ?md wb e wc]
          show ?thesis by blast
        next
          case md1: (Inr md1)
          show ?thesis
          proof (cases "collect s cfg pid md1")
            case (Inl e5)
            with assms lc cfg os u pid cc md1 have "e5 = e" by (simp add: dump_body_def)
            with Inl collect_error [of s cfg pid md1 e] show ?thesis by blast
          next
            case md2: (Inr md2)
            obtain r6 wd where pe: "persist s label (minidump_build s md2) wc = (r6, wd)"
              by (cases "persist s label (minidump_build s md2) wc")
            show ?thesis
            proof (cases r6)
              case (Inl e6)
              with assms lc cfg os u pid cc md1 md2 pe have "e6 = e" by (simp add: dump_body_def)
              with pe Inl persist_error [of s label _ wc e wd] show ?thesis by blast
            next
              case (Inr u6)
              with assms lc cfg os u pid cc md1 md2 pe show ?thesis by (simp add: dump_body_def)
            qed
          qed
        qed
      qed
    qed
  qed
qed

section \<open>A failing secure-world read\<close>




section \<open>The exit status\<close>

lemma dump_of_body:
  "dump_body s label vmem w = (r, w') \<Longrightarrow>
   dump s label vmem w =
     (case r of Inl KeyboardInterrupt \<Rightarrow> (Inr (), w') | Inl e \<Rightarrow> (Inl e, w') | Inr md \<Rightarrow> (Inr (), w'))"
  by (simp add: dump_def split: sum.splits exn.splits)

text \<open>
  Claim C6, amended.  \<open>sys.exit(1)\<close> ends the run in two cases: a local image path whose
  extension is not \<open>.vmem\<close>, found before any wait, session or write (the world is
  unchanged), and the absence of \<open>lsass.exe\<close> from the enumeration, found after the
  session is opened and before any file is written.  \<open>dump\<close> returns normally, status 0,
  when \<open>_dump\<close> completes and when it is interrupted (\<open>KeyboardInterrupt\<close> is caught).
  Every other exception of \<open>_dump\<close> leaves \<open>dump\<close> too, and then the status is not 0.
  Conversely, when the reads do not themselves raise \<open>SystemExit\<close>, a \<open>SystemExit k\<close> out
  of \<open>dump\<close> has \<open>k = 1\<close> and comes from one of the two cases.
\<close>

theorem dump_exit_status:
  "(bad_extension vmem \<longrightarrow> dump s label vmem w = (Inl (SystemExit 1), w))
   \<and> (load_config s vmem w = (Inr cfg, wa) \<longrightarrow> open_session s cfg wa = (Inr (), wb) \<longrightarrow>
        lsass_absent s \<longrightarrow> dump s label vmem w = (Inl (SystemExit 1), wb) \<and> files wb = files w)
   \<and> (fst (dump_body s label vmem w) = Inl KeyboardInterrupt \<longrightarrow>
        exit_status (fst (dump s label vmem w)) = 0)
   \<and> ((\<exists>md. fst (dump_body s label vmem w) = Inr md) \<longrightarrow>
        exit_status (fst (dump s label vmem w)) = 0)
   \<and> (fst (dump_body s label vmem w) = Inl e \<longrightarrow> e \<noteq> KeyboardInterrupt \<longrightarrow>
        fst (dump s label vmem w) = Inl e \<and> (e \<noteq> SystemExit 0 \<longrightarrow> exit_status (fst (dump s label vmem w)) \<noteq> 0))
   \<and> ((\<forall>a n. base_read s a n \<noteq> Inl (SystemExit k) \<and> addr_space_read s a n \<noteq> Inl (SystemExit k)) \<longrightarrow>
        fst (dump s label vmem w) = Inl (SystemExit k) \<longrightarrow>
        k = 1 \<and> (bad_extension vmem \<or> lsass_absent s))"
proof (intro conjI impI)
  assume "bad_extension vmem"
  then have "load_config s vmem w = (Inl (SystemExit 1), w)"
    by (rule load_config_bad_extension)
  then have "dump_body s label vmem w = (Inl (SystemExit 1), w)"
    by (simp add: dump_body_def)
  then show "dump s label vmem w = (Inl (SystemExit 1), w)"
    by (simp add: dump_def)
next
  assume lc: "load_config s vmem w = (Inr cfg, wa)"
    and os: "open_session s cfg wa = (Inr (), wb)" and ab: "lsass_absent s"
  from ab have "find_lsass s = Inl (SystemExit 1)"
    by (simp add: find_lsass_error)
  with lc os have "dump_body s label vmem w = (Inl (SystemExit 1), wb)"
    by (simp add: dump_body_def)
  then show "dump s label vmem w = (Inl (SystemExit 1), wb)"
    by (simp add: dump_def)
  show "files wb = files w"
    using load_config_world [OF lc] open_session_world [OF os] by simp
next
  assume "fst (dump_body s label vmem w) = Inl KeyboardInterrupt"
  then show "exit_status (fst (dump s label vmem w)) = 0"
    by (cases "dump_body s label vmem w") (simp add: dump_def exit_status_def)
next
  assume "\<exists>md. fst (dump_body s label vmem w) = Inr md"
  then show "exit_status (fst (dump s label vmem w)) = 0"
    by (cases "dump_body s label vmem w") (auto simp: dump_def exit_status_def)
next
  assume a: "fst (dump_body s label vmem w) = Inl e" and b: "e \<noteq> KeyboardInterrupt"
  then show c: "fst (dump s label vmem w) = Inl e"
    by (cases "dump_body s label vmem w"; cases e) (simp_all add: dump_def)
  assume "e \<noteq> SystemExit 0"
  with b show "exit_status (fst (dump s label vmem w)) \<noteq> 0"
    unfolding c by (cases e) (simp_all add: exit_status_def)
next
  assume nc: "\<forall>a n. base_read s a n \<noteq> Inl (SystemExit k) \<and> addr_space_read s a n \<noteq> Inl (SystemExit k)"
    and ex: "fst (dump s label vmem w) = Inl (SystemExit k)"
  obtain r w' where db: "dump_body s label vmem w = (r, w')"
    by (cases "dump_body s label vmem w")
  from ex dump_of_body [OF db] have "r = Inl (SystemExit k)"
    by (auto split: sum.splits exn.splits)
  with db have "dump_body s label vmem w = (Inl (SystemExit k), w')" by simp
  from dump_body_error [OF this] nc
  have res: "k = 1 \<and> (bad_extension vmem \<or> lsass_absent s)" by auto
  from res show "k = 1" by simp
  from res show "bad_extension vmem \<or> lsass_absent s" by simp
qed

theorem dump_exit_status_counterexample:
  "exit_status (fst (dump env_missing ''x'' None w0)) = 1
   \<and> \<not> lsass_absent env_missing \<and> \<not> bad_extension None"
  by code_simp

theorem dump_exit_status_witness:
  "dump env0 ''x'' (Some ''mem.raw'') w0 = (Inl (SystemExit 1), w0)
   \<and> dump env_no_lsass ''x'' (Some ''mem.vmem'') w0 = (Inl (SystemExit 1), w0\<lparr>sessions := 1\<rparr>)
   \<and> exit_status (fst (dump (env_fail KeyboardInterrupt) ''x'' (Some ''mem.vmem'') w1)) = 0
   \<and> exit_status (fst (dump env0 ''x'' (Some ''mem.vmem'') w1)) = 0
   \<and> fst (dump env_missing ''x'' None w0) = Inl (Exception ''File does not exist: config.json'')
   \<and> exit_status (fst (dump env_missing ''x'' None w0)) \<noteq> 0"
proof -
  have a: "bad_extension (Some ''mem.raw'')" by code_simp
  have b1: "load_config env_no_lsass (Some ''mem.vmem'') w0 = (Inr cfg_local, w0)" by code_simp
  have b2: "open_session env_no_lsass cfg_local w0 = (Inr (), w0\<lparr>sessions := 1\<rparr>)" by code_simp
  have b3: "lsass_absent env_no_lsass" by code_simp
  have c: "fst (dump_body (env_fail KeyboardInterrupt) ''x'' (Some ''mem.vmem'') w1) = Inl KeyboardInterrupt"
    by code_simp
  have d: "\<exists>md. fst (dump_body env0 ''x'' (Some ''mem.vmem'') w1) = Inr md"
  proof -
    have "\<not> isl (fst (dump_body env0 ''x'' (Some ''mem.vmem'') w1))" by code_simp
    then show ?thesis by (cases "fst (dump_body env0 ''x'' (Some ''mem.vmem'') w1)") simp_all
  qed
  have e: "fst (dump_body env_missing ''x'' None w0) = Inl (Exception ''File does not exist: config.json'')"
    by code_simp
  note t1 = dump_exit_status [of "Some ''mem.raw''" env0 "''x''" w0 cfg_local w0 w0 KeyboardInterrupt 1]
  note t2 = dump_exit_status [of "Some ''mem.vmem''" env_no_lsass "''x''" w0 cfg_local w0 "w0\<lparr>sessions := 1\<rparr>" KeyboardInterrupt 1]
  note t3 = dump_exit_status [of "Some ''mem.vmem''" "env_fail KeyboardInterrupt" "''x''" w1 cfg_local w0 w0 KeyboardInterrupt 1]
  note t4 = dump_exit_status [of "Some ''mem.vmem''" env0 "''x''" w1 cfg_local w0 w0 KeyboardInterrupt 1]
  note t5 = dump_exit_status [of None env_missing "''x''" w0 cfg_local w0 w0 "Exception ''File does not exist: config.json''" 1]
  from t1 a have r1: "dump env0 ''x'' (Some ''mem.raw'') w0 = (Inl (SystemExit 1), w0)" by blast
  from t2 b1 b2 b3 have r2: "dump env_no_lsass ''x'' (Some ''mem.vmem'') w0 = (Inl (SystemExit 1), w0\<lparr>sessions := 1\<rparr>)" by blast
  from t3 c have r3: "exit_status (fst (dump (env_fail KeyboardInterrupt) ''x'' (Some ''mem.vmem'') w1)) = 0" by blast
  from t4 d have r4: "exit_status (fst (dump env0 ''x'' (Some ''mem.vmem'') w1)) = 0" by blast
  have ne: "Exception ''File does not exist: config.json'' \<noteq> KeyboardInterrupt"
    "Exception ''File does not exist: config.json'' \<noteq> SystemExit 0" by simp_all
  from t5 e ne have r5: "fst (dump env_missing ''x'' None w0) = Inl (Exception ''File does not exist: config.json'')
     \<and> exit_status (fst (dump env_missing ''x'' None w0)) \<noteq> 0" by blast
  from r1 r2 r3 r4 r5 show ?thesis by blast
qed

section \<open>The region records\<close>

lemma region_of_zero:
  "mi \<in> set (map region_of ops) \<Longrightarrow>
   AllocationBase mi = 0 \<and> AllocationProtect mi = 0 \<and> Protect mi = 0 \<and> State mi = 0 \<and> Type mi = 0"
  by (auto simp: region_of_def)

lemma read_memory_fast_regions:
  "read_memory_fast rd ranges module_list = Inr (memoryinfo_list, memory64_list) \<Longrightarrow>
   memoryinfo_list = map region_of (operations module_list ranges)"
  using read_and_fill_Inr [of rd "operations module_list ranges" "[]" "[]" memoryinfo_list memory64_list]
  by (simp add: read_memory_fast_def)

lemma collect_regions:
  "collect s cfg pid md = Inr md' \<Longrightarrow>
   md_memoryinfo_list md' =
     map region_of (operations (read_modulelist (dlllist s pid)) (address_ranges s))"
  by (auto simp: collect_def Let_def split: sum.splits prod.splits dest!: read_memory_fast_regions)

lemma dump_body_collects:
  assumes "dump_body s label vmem w = (Inr md, w')"
  shows "\<exists>cfg pid md1. find_lsass s = Inr pid \<and> collect s cfg pid md1 = Inr md"
  using assms
  by (auto simp: dump_body_def split: sum.splits prod.splits)

lemma read_memoryinfo_fold:
  "fold (\<lambda>d acc. case vad_start d of None \<Rightarrow> acc | Some start \<Rightarrow> acc @ [f d start]) rows acc0 =
   acc0 @ concat (map (\<lambda>d. case vad_start d of None \<Rightarrow> [] | Some start \<Rightarrow> [f d start]) rows)"
  by (induction rows arbitrary: acc0) (simp_all split: option.splits)

lemma read_memoryinfo_populates:
  "mi \<in> set (read_memoryinfo vaddump) \<Longrightarrow>
   \<exists>d\<in>set vaddump. Protect mi = vad_protect d \<and> AllocationProtect mi = vad_protect d
     \<and> Type mi = (if vad_type d = ''Mapped'' then 0x40000
                   else if vad_type d = ''Private'' then 0x20000 else 0)"
  unfolding read_memoryinfo_def read_memoryinfo_fold
  by (auto simp: MEM_MAPPED_def MEM_PRIVATE_def split: option.splits)

text \<open>
  Claim C10.  Every region record that \<open>read_memory_fast\<close> returns has
  \<open>AllocationBase\<close>, \<open>AllocationProtect\<close>, \<open>Protect\<close>, \<open>State\<close> and \<open>Type\<close> equal to 0.
  The region list that a completed \<open>_dump\<close> hands to the builder is the one of
  \<open>read_memory_fast\<close>, one record per operation (\<open>read_memoryinfo\<close>, whose records carry the
  protection and type of the rows of \<open>vaddump\<close>, is not called), so the same holds for
  every region of the dump.
\<close>

theorem regions_carry_no_metadata:
  "(read_memory_fast rd ranges module_list = Inr (memoryinfo_list, memory64_list) \<longrightarrow>
      (\<forall>mi\<in>set memoryinfo_list.
         AllocationBase mi = 0 \<and> AllocationProtect mi = 0 \<and> Protect mi = 0 \<and> State mi = 0
         \<and> Type mi = 0))
   \<and> (dump_body s label vmem w = (Inr md, w') \<longrightarrow>
        (\<exists>pid. find_lsass s = Inr pid
           \<and> md_memoryinfo_list md =
               map region_of (operations (read_modulelist (dlllist s pid)) (address_ranges s)))
        \<and> (\<forall>mi\<in>set (md_memoryinfo_list md).
             AllocationBase mi = 0 \<and> AllocationProtect mi = 0 \<and> Protect mi = 0 \<and> State mi = 0
             \<and> Type mi = 0))"
proof (intro conjI impI)
  assume "read_memory_fast rd ranges module_list = Inr (memoryinfo_list, memory64_list)"
  then have "memoryinfo_list = map region_of (operations module_list ranges)"
    by (rule read_memory_fast_regions)
  then show "\<forall>mi\<in>set memoryinfo_list.
         AllocationBase mi = 0 \<and> AllocationProtect mi = 0 \<and> Protect mi = 0 \<and> State mi = 0
         \<and> Type mi = 0"
    using region_of_zero by blast
next
  assume a: "dump_body s label vmem w = (Inr md, w')"
  from dump_body_collects [OF a] obtain cfg pid md1
    where pid: "find_lsass s = Inr pid" and co: "collect s cfg pid md1 = Inr md" by blast
  from collect_regions [OF co] have r: "md_memoryinfo_list md =
     map region_of (operations (read_modulelist (dlllist s pid)) (address_ranges s))" .
  from pid r show "\<exists>pid. find_lsass s = Inr pid
           \<and> md_memoryinfo_list md =
               map region_of (operations (read_modulelist (dlllist s pid)) (address_ranges s))"
    by blast
  from r show "\<forall>mi\<in>set (md_memoryinfo_list md).
             AllocationBase mi = 0 \<and> AllocationProtect mi = 0 \<and> Protect mi = 0 \<and> State mi = 0
             \<and> Type mi = 0"
    using region_of_zero by metis
qed

theorem regions_carry_no_metadata_witness:
  "map (\<lambda>mi. (AllocationBase mi, AllocationProtect mi, Protect mi, State mi, Type mi))
       (map region_of [(Fin 0, Fin 5, ''pad''), (Fin 5, Fin 8, ''mem''), (Fin 8, Fin 10, ''pad'')])
     = [(0, 0, 0, 0, 0), (0, 0, 0, 0, 0), (0, 0, 0, 0, 0)]
   \<and> map (\<lambda>mi. (AllocationBase mi, AllocationProtect mi, Protect mi, State mi, Type mi))
       (md_memoryinfo_list md_sample)
     = [(0, 0, 0, 0, 0), (0, 0, 0, 0, 0), (0, 0, 0, 0, 0)]"
proof -
  let ?regions = "map region_of [(Fin 0, Fin 5, ''pad''), (Fin 5, Fin 8, ''mem''), (Fin 8, Fin 10, ''pad'')]"
  have a: "read_memory_fast (zero_filling_read rd0) [(5, 8)] [(''a'', 0, 10)] =
     Inr (?regions, [(0, 5, [0, 0, 0, 0, 0]), (5, 3, [1, 2, 3]), (8, 2, [0, 0])])"
    by (simp add: read_memory_fast_def operations_sample zero_filling_read_def rd0_def
          region_of_def numeral_eq_Suc)
  have b: "dump_body env0 ''x'' (Some ''mem.vmem'') w1 = (Inr md_sample, w_sample)"
    by code_simp
  have l: "length ?regions = 3" "md_memoryinfo_list md_sample = ?regions"
    by (simp_all add: md_sample_def)
  from regions_carry_no_metadata
         [of "zero_filling_read rd0" "[(5, 8)]" "[(''a'', 0, 10)]" ?regions
             "[(0, 5, [0, 0, 0, 0, 0]), (5, 3, [1, 2, 3]), (8, 2, [0, 0])]"
             env0 "''x''" "Some ''mem.vmem''" w1 md_sample w_sample] a b
  have z: "\<forall>mi\<in>set ?regions.
      AllocationBase mi = 0 \<and> AllocationProtect mi = 0 \<and> Protect mi = 0 \<and> State mi = 0
      \<and> Type mi = 0"
    by blast
  then have "map (\<lambda>mi. (AllocationBase mi, AllocationProtect mi, Protect mi, State mi, Type mi))
       ?regions = map (\<lambda>mi. (0, 0, 0, 0, 0)) ?regions"
    by (intro map_cong refl) auto
  then show ?thesis unfolding l(2) by simp
qed

section \<open>The output directory\<close>

text \<open>
  Claim C9.  The claim fails for the secure-world blob: \<open>_cg\<close> opens its file in
  \<open>output\<close> without creating the directory, and \<open>_dump\<close> creates the directory only later,
  before it writes the container.  On a local image with Credential Guard and no directory
  \<open>output\<close>, the run ends with \<open>FileNotFoundError\<close> for the blob, nothing written and no
  directory created; the same run without Credential Guard creates \<open>output\<close> and writes
  the container.
\<close>

theorem secure_world_blob_needs_output:
  "dump_body env0 ''x'' (Some ''mem.vmem'') w0 =
     (Inl (FileNotFoundError ''output/x-2020-01-01-secure-world.raw''), w0\<lparr>sessions := 1\<rparr>)
   \<and> dump_body env_no_cg ''x'' (Some ''mem.vmem'') w0 =
     (Inr (md_sample\<lparr>md_secure_world := None\<rparr>),
      \<lparr>clock = 0, dirs = [''output''],
       files = [(''output/x-2020-01-01-lsass.dmp'', [77, 68, 77, 80])], sessions = 1\<rparr>)"
  by code_simp

section \<open>Interval reconciliation\<close>

lemma atomic_addresses_empty: "\<not> fst a < snd a \<Longrightarrow> atomic_addresses a = {}"
  by (simp add: atomic_addresses_def)


lemma addresses_Nil [simp]: "addresses [] = {}"
  by (simp add: addresses_def)


lemma addresses_Cons [simp]: "addresses (a # atoms) = atomic_addresses a \<union> addresses atoms"
  by (simp add: addresses_def)


lemma addresses_append [simp]: "addresses (xs @ ys) = addresses xs \<union> addresses ys"
  by (auto simp: addresses_def)


lemma addresses_concat: "addresses (concat xss) = (\<Union>xs\<in>set xss. addresses xs)"
  by (induction xss) auto


lemma addresses_set_cong: "set xs = set ys \<Longrightarrow> addresses xs = addresses ys"
  by (simp add: addresses_def)


lemma addresses_filter_nonempty:
  "addresses (filter (\<lambda>(lower, upper). lower < upper) atoms) = addresses atoms"
proof (induction atoms)
  case Nil
  show ?case by simp
next
  case (Cons a atoms)
  show ?case
  proof (cases "fst a < snd a")
    case True
    with Cons show ?thesis by (simp add: split_def)
  next
    case False
    then have "atomic_addresses a = {}" by (rule atomic_addresses_empty)
    with False Cons show ?thesis by (simp add: split_def)
  qed
qed

lemma merge_atomics_lowers: "fst ` set (merge_atomics xs) \<subseteq> fst ` set xs"
proof (induction xs rule: merge_atomics.induct)
  case (1 a b rest)
  show ?case
  proof (cases "fst b \<le> snd a")
    case True
    with 1 show ?thesis by auto
  next
    case False
    with 1 show ?thesis by auto
  qed
qed simp_all


lemma addresses_merge_atomics:
  "sorted (map fst xs) \<Longrightarrow> addresses (merge_atomics xs) = addresses xs"
proof (induction xs rule: merge_atomics.induct)
  case (1 a b rest)
  from "1.prems" have ab: "fst a \<le> fst b" by simp
  show ?case
  proof (cases "fst b \<le> snd a")
    case True
    from "1.prems" have "sorted (map fst ((fst a, max (snd a) (snd b)) # rest))" by auto
    with 1 True have "addresses (merge_atomics (a # b # rest)) =
        addresses ((fst a, max (snd a) (snd b)) # rest)" by simp
    also have "\<dots> = addresses (a # b # rest)"
      using ab True by (auto simp: atomic_addresses_def)
    finally show ?thesis .
  next
    case False
    from "1.prems" have "sorted (map fst (b # rest))" by simp
    with 1 False show ?thesis by simp
  qed
qed simp_all


lemma normal_Nil [simp]: "normal []"
  by (simp add: normal_def)


lemma normal_Cons:
  "normal (a # i) \<longleftrightarrow> fst a < snd a \<and> (\<forall>b\<in>set i. snd a < fst b) \<and> normal i"
  by (auto simp: normal_def)


lemma normal_merge_atomics:
  "sorted (map fst xs) \<Longrightarrow> \<forall>a\<in>set xs. fst a < snd a \<Longrightarrow> normal (merge_atomics xs)"
proof (induction xs rule: merge_atomics.induct)
  case (1 a b rest)
  show ?case
  proof (cases "fst b \<le> snd a")
    case True
    from "1.prems" have "sorted (map fst ((fst a, max (snd a) (snd b)) # rest))" by auto
    moreover from "1.prems" have "\<forall>c\<in>set ((fst a, max (snd a) (snd b)) # rest). fst c < snd c"
      by auto
    ultimately show ?thesis using 1 True by simp
  next
    case False
    from "1.prems" have s: "sorted (map fst (b # rest))" by simp
    with 1 False have n: "normal (merge_atomics (b # rest))" by simp
    have "\<forall>c\<in>set (merge_atomics (b # rest)). snd a < fst c"
    proof
      fix c assume "c \<in> set (merge_atomics (b # rest))"
      with merge_atomics_lowers [of "b # rest"] have "fst c \<in> fst ` set (b # rest)" by blast
      with s have "fst b \<le> fst c" by auto
      with False show "snd a < fst c" by simp
    qed
    with n False "1.prems" show ?thesis by (simp add: normal_Cons)
  qed
qed (simp_all add: normal_Cons)


lemma normal_Interval: "normal (Interval atoms)"
  unfolding Interval_def
proof (rule normal_merge_atomics)
  show "sorted (map fst (sort_key fst (filter (\<lambda>(lower, upper). lower < upper) atoms)))"
    by (rule sorted_sort_key)
  show "\<forall>a\<in>set (sort_key fst (filter (\<lambda>(lower, upper). lower < upper) atoms)). fst a < snd a"
    by auto
qed


lemma addresses_Interval: "addresses (Interval atoms) = addresses atoms"
proof -
  have "addresses (Interval atoms) =
        addresses (sort_key fst (filter (\<lambda>(lower, upper). lower < upper) atoms))"
    unfolding Interval_def by (rule addresses_merge_atomics) (rule sorted_sort_key)
  also have "\<dots> = addresses (filter (\<lambda>(lower, upper). lower < upper) atoms)"
    by (rule addresses_set_cong) simp
  finally show ?thesis by (simp add: addresses_filter_nonempty)
qed


lemma normal_empty_iff: "normal i \<Longrightarrow> (i = [] \<longleftrightarrow> addresses i = {})"
  by (cases i) (auto simp: normal_Cons atomic_addresses_def)

lemma normal_union: "normal (union_interval i j)"
  by (simp add: union_interval_def normal_Interval)

lemma addresses_union: "addresses (union_interval i j) = addresses i \<union> addresses j"
  by (simp add: union_interval_def addresses_Interval)

lemma normal_closedopen: "normal (closedopen lo hi)"
  by (simp add: closedopen_def normal_Interval)

lemma addresses_closedopen: "addresses (closedopen lo hi) = {lo..<hi}"
  by (simp add: closedopen_def addresses_Interval atomic_addresses_def)

lemma normal_intersection: "normal (intersection i j)"
  by (simp add: intersection_def normal_Interval)

lemma addresses_pairs:
  "addresses (map (\<lambda>(l', u'). (max l l', min u u')) j) = {l..<u} \<inter> addresses j"
proof (induction j)
  case Nil
  show ?case by simp
next
  case (Cons b j)
  have "atomic_addresses (max l (fst b), min u (snd b)) = {l..<u} \<inter> atomic_addresses b"
    unfolding atomic_addresses_def by auto
  with Cons show ?case by (simp add: split_def Int_Un_distrib)
qed

lemma addresses_intersection:
  "addresses (intersection i j) = addresses i \<inter> addresses j"
proof -
  have "addresses (concat (map (\<lambda>(l, u). map (\<lambda>(l', u'). (max l l', min u u')) j) i)) =
        addresses i \<inter> addresses j"
  proof (induction i)
    case Nil
    show ?case by simp
  next
    case (Cons a i)
    have "addresses (map (\<lambda>(l', u'). (max (fst a) l', min (snd a) u')) j) =
          atomic_addresses a \<inter> addresses j"
      unfolding atomic_addresses_def by (rule addresses_pairs)
    with Cons show ?case by (simp add: split_def Int_Un_distrib2)
  qed
  then show ?thesis by (simp add: intersection_def addresses_Interval)
qed

lemma atomic_difference:
  "addresses (difference_atomic a b) = atomic_addresses a - atomic_addresses b"
  unfolding difference_atomic_def atomic_addresses_def addresses_def by auto

lemma addresses_difference_step:
  "addresses (concat (map (\<lambda>a. difference_atomic a b) acc)) = addresses acc - atomic_addresses b"
proof (induction acc)
  case Nil
  show ?case by simp
next
  case (Cons a acc)
  then show ?case by (simp add: atomic_difference Un_Diff)
qed

lemma difference_fold:
  "normal acc \<Longrightarrow>
   normal (fold (\<lambda>b acc. Interval (concat (map (\<lambda>a. difference_atomic a b) acc))) j acc)
   \<and> addresses (fold (\<lambda>b acc. Interval (concat (map (\<lambda>a. difference_atomic a b) acc))) j acc)
       = addresses acc - addresses j"
proof (induction j arbitrary: acc)
  case Nil
  then show ?case by simp
next
  case (Cons b j)
  let ?acc = "Interval (concat (map (\<lambda>a. difference_atomic a b) acc))"
  have n: "normal ?acc" by (rule normal_Interval)
  have a: "addresses ?acc = addresses acc - atomic_addresses b"
    by (simp add: addresses_Interval addresses_difference_step)
  from Cons.IH [OF n] a show ?case by (simp add: Diff_eq Int_ac)
qed

lemma normal_difference: "normal (difference i j)"
  unfolding difference_def using difference_fold [OF normal_Interval] by blast

lemma addresses_difference: "addresses (difference i j) = addresses i - addresses j"
  unfolding difference_def using difference_fold [OF normal_Interval, of j i]
  by (simp add: addresses_Interval)

lemma dict_addresses_Nil [simp]: "dict_addresses [] v = {}"
  by (simp add: dict_addresses_def)

lemma dict_addresses_Cons [simp]:
  "dict_addresses (item # d) v =
     (if snd item = v then addresses (fst item) else {}) \<union> dict_addresses d v"
  by (simp add: dict_addresses_def)

lemma dict_addresses_append [simp]:
  "dict_addresses (d @ d') v = dict_addresses d v \<union> dict_addresses d' v"
  by (induction d) auto

lemma dict_addresses_filter:
  "dict_addresses (filter (\<lambda>(found_key, found_value). found_key \<noteq> empty_interval) d) v
     = dict_addresses d v"
proof (induction d)
  case Nil
  show ?case by simp
next
  case (Cons item d)
  show ?case
  proof (cases "fst item = []")
    case True
    then have "addresses (fst item) = {}" by simp
    with True Cons show ?thesis by (simp add: split_def empty_interval_def)
  next
    case False
    with Cons show ?thesis by (simp add: split_def empty_interval_def)
  qed
qed

lemma dict_addresses_absent:
  "\<not> list_ex (\<lambda>(found_key, found_value). v = found_value) d \<Longrightarrow> dict_addresses d v = {}"
proof (induction d)
  case Nil
  show ?case by simp
next
  case (Cons item d)
  then show ?case by (cases "snd item = v") (simp_all add: split_def)
qed

lemma dict_addresses_map:
  "dict_addresses
     (map (\<lambda>(found_key, found_value).
             if v = found_value then (union_interval found_key key, found_value)
             else (difference found_key key, found_value)) d) v' =
   (if v' = v then (if list_ex (\<lambda>(found_key, found_value). v = found_value) d
                    then dict_addresses d v' \<union> addresses key else {})
    else dict_addresses d v' - addresses key)"
proof (induction d)
  case Nil
  show ?case by simp
next
  case (Cons item d)
  obtain k w where item: "item = (k, w)" by (cases item)
  show ?case
  proof (cases "v' = v")
    case True
    show ?thesis
    proof (cases "w = v")
      case same: True
      with Cons item True show ?thesis
        by (cases "list_ex (\<lambda>(found_key, found_value). v = found_value) d")
           (simp_all add: addresses_union dict_addresses_absent Un_ac)
    next
      case diff: False
      with Cons item True show ?thesis
        by (simp add: addresses_difference)
    qed
  next
    case False
    show ?thesis
    proof (cases "w = v")
      case same: True
      with False have "w \<noteq> v'" by simp
      with Cons item False same show ?thesis by simp
    next
      case diff: False
      with Cons item False show ?thesis
        by (simp add: addresses_difference Un_Diff)
    qed
  qed
qed

lemma dict_addresses_setitem:
  "dict_addresses (setitem d key v) v' =
     (if v' = v then dict_addresses d v' \<union> addresses key else dict_addresses d v' - addresses key)"
proof (cases "key = empty_interval")
  case True
  then show ?thesis by (simp add: setitem_def empty_interval_def)
next
  case False
  show ?thesis
  proof (cases "list_ex (\<lambda>(found_key, found_value). v = found_value) d")
    case True
    with False show ?thesis
      by (simp add: setitem_def Let_def dict_addresses_filter dict_addresses_map)
  next
    case no: False
    with False show ?thesis
      by (simp add: setitem_def Let_def dict_addresses_filter dict_addresses_map
            dict_addresses_absent)
  qed
qed

lemma normal_find_value: "normal (find_value d v)"
  by (simp add: find_value_def normal_Interval)

lemma addresses_find_value: "addresses (find_value d v) = dict_addresses d v"
proof -
  have "addresses (concat (map fst (filter (\<lambda>(key, found_value). found_value = v) d))) =
        dict_addresses d v"
    by (induction d) (simp_all add: split_def)
  then show ?thesis by (simp add: find_value_def addresses_Interval)
qed

lemma live_addresses_Nil [simp]: "live_addresses [] = {}"
  by (simp add: live_addresses_def)

lemma live_addresses_Cons [simp]:
  "live_addresses (r # ranges) = {fst r..<snd r} \<union> live_addresses ranges"
  by (simp add: live_addresses_def)

lemma live_addresses_beyond:
  "\<forall>r\<in>set ranges. hi \<le> fst r \<Longrightarrow> live_addresses ranges \<inter> {lo..<hi} = {}"
  by (induction ranges) auto

lemma intersection_empty_iff:
  "intersection i j = empty_interval \<longleftrightarrow> addresses i \<inter> addresses j = {}"
  using normal_empty_iff [OF normal_intersection, of i j]
  by (simp add: empty_interval_def addresses_intersection)

lemma fill_not_mem: "''fill'' \<noteq> ''mem''"
  by simp

lemma mark_available_fill:
  "sorted (map fst mem_list) \<Longrightarrow> addresses modi = {mod_start..<mod_start + size'} \<Longrightarrow>
   dict_addresses d ''fill'' \<subseteq> addresses modi \<Longrightarrow>
   dict_addresses (mark_available d mod_start size' modi mem_list) ''fill'' =
     dict_addresses d ''fill'' - live_addresses mem_list"
proof (induction mem_list arbitrary: d)
  case Nil
  show ?case by simp
next
  case (Cons r rest)
  obtain start end' where r: "r = (start, end')" by (cases r)
  let ?mem = "closedopen start end'"
  let ?d = "if intersection ?mem modi \<noteq> empty_interval then setitem d ?mem ''mem'' else d"
  let ?D = "dict_addresses d ''fill''"
  have step: "dict_addresses ?d ''fill'' = ?D - {start..<end'}"
  proof (cases "intersection ?mem modi = empty_interval")
    case True
    then have "{start..<end'} \<inter> addresses modi = {}"
      by (simp add: intersection_empty_iff addresses_closedopen)
    with Cons.prems(3) have "?D - {start..<end'} = ?D" by blast
    with True show ?thesis by simp
  next
    case False
    then show ?thesis
      by (simp add: dict_addresses_setitem addresses_closedopen)
  qed
  have sub: "dict_addresses ?d ''fill'' \<subseteq> addresses modi"
    unfolding step using Cons.prems(3) by blast
  show ?case
  proof (cases "start > mod_start + size'")
    case True
    from Cons.prems(1) have "\<forall>q\<in>set rest. start \<le> fst q" by (simp add: r)
    with True have "\<forall>q\<in>set rest. mod_start + size' \<le> fst q" by auto
    then have "live_addresses rest \<inter> {mod_start..<mod_start + size'} = {}"
      by (rule live_addresses_beyond)
    with Cons.prems(2,3) have "?D - {start..<end'} - live_addresses rest = ?D - {start..<end'}"
      by blast
    with True step show ?thesis by (simp add: r Let_def Diff_eq Int_ac)
  next
    case False
    from Cons.prems(1) have s: "sorted (map fst rest)" by simp
    from Cons.IH [OF s Cons.prems(2) sub] step False
    show ?thesis by (simp add: r Let_def Diff_eq Int_ac)
  qed
qed

lemma normal_fill_module: "normal (fill_module mem_list m filling)"
  by (simp add: fill_module_def split_def Let_def normal_union)

lemma addresses_fill_module:
  assumes "sorted (map fst mem_list)"
  shows "addresses (fill_module mem_list m filling) =
           addresses filling
           \<union> ({fst (snd m)..<fst (snd m) + snd (snd m)} - live_addresses mem_list)"
proof -
  obtain a mod_start size' where m: "m = (a, mod_start, size')" by (cases m)
  let ?modi = "closedopen mod_start (mod_start + size')"
  let ?d = "setitem [] ?modi ''fill''"
  have am: "addresses ?modi = {mod_start..<mod_start + size'}"
    by (rule addresses_closedopen)
  have d: "dict_addresses ?d ''fill'' = addresses ?modi"
    by (simp add: dict_addresses_setitem)
  then have sub: "dict_addresses ?d ''fill'' \<subseteq> addresses ?modi" by simp
  from mark_available_fill [OF assms am sub] d am
  have "dict_addresses (mark_available ?d mod_start size' ?modi mem_list) ''fill'' =
        {mod_start..<mod_start + size'} - live_addresses mem_list" by simp
  then show ?thesis
    by (simp add: fill_module_def m Let_def addresses_union addresses_find_value)
qed

lemma find_filling_fold:
  assumes "sorted (map fst mem_list)"
  shows "normal acc \<Longrightarrow>
         normal (fold (fill_module mem_list) module_list acc)
         \<and> addresses (fold (fill_module mem_list) module_list acc) =
             addresses acc \<union> (module_addresses module_list - live_addresses mem_list)"
proof (induction module_list arbitrary: acc)
  case Nil
  then show ?case by (simp add: module_addresses_def)
next
  case (Cons m module_list)
  have n: "normal (fill_module mem_list m acc)" by (rule normal_fill_module)
  from Cons.IH [OF n] addresses_fill_module [OF assms, of m acc]
  show ?case by (simp add: module_addresses_def Un_Diff Un_ac)
qed

lemma normal_find_filling:
  "sorted (map fst mem_list) \<Longrightarrow> normal (find_filling module_list mem_list)"
  unfolding find_filling_def empty_interval_def
  using find_filling_fold [of mem_list "[]" module_list] by simp

lemma addresses_find_filling:
  "sorted (map fst mem_list) \<Longrightarrow>
   addresses (find_filling module_list mem_list) =
     module_addresses module_list - live_addresses mem_list"
  unfolding find_filling_def empty_interval_def
  using find_filling_fold [of mem_list "[]" module_list] by simp

lemma sorted_map_fst: "sorted (xs :: ('a::linorder \<times> 'b::linorder) list) \<Longrightarrow> sorted (map fst xs)"
proof (induction xs)
  case Nil
  show ?case by simp
next
  case (Cons x xs)
  then have "\<forall>y\<in>set xs. x \<le> y" by simp
  then have "\<forall>y\<in>set xs. fst x \<le> fst y" by (auto simp: less_eq_prod_def)
  with Cons show ?case by simp
qed

lemma sorted_wrt_pair:
  "sorted_wrt P xs \<Longrightarrow> a \<in> set xs \<Longrightarrow> b \<in> set xs \<Longrightarrow> a = b \<or> P a b \<or> P b a"
  by (induction xs) auto

lemma sorted_wrt_insort_key:
  assumes "\<And>a b. P a b \<Longrightarrow> P b a"
  shows "sorted_wrt P (insort_key f x xs) \<longleftrightarrow> (\<forall>y\<in>set xs. P x y) \<and> sorted_wrt P xs"
proof (induction xs)
  case Nil
  show ?case by simp
next
  case (Cons y ys)
  show ?case
  proof (cases "f x \<le> f y")
    case True
    then show ?thesis by auto
  next
    case False
    have "P y x \<longleftrightarrow> P x y" using assms by blast
    with False Cons show ?thesis by (auto simp: set_insort_key)
  qed
qed

lemma sorted_wrt_sort_key:
  assumes "\<And>a b. P a b \<Longrightarrow> P b a"
  shows "sorted_wrt P (sort_key f xs) \<longleftrightarrow> sorted_wrt P xs"
proof (induction xs)
  case Nil
  show ?case by simp
next
  case (Cons x xs)
  have "sort_key f (x # xs) = insort_key f x (sort_key f xs)"
    by (simp add: sort_key_def)
  with Cons sorted_wrt_insort_key [of P f x "sort_key f xs", OF assms]
  show ?case by simp
qed

lemma non_overlapping_sort:
  "non_overlapping (map g (sort xs)) \<longleftrightarrow> non_overlapping (map g xs)"
proof -
  have "sorted_wrt (\<lambda>a b. g a \<inter> g b = {}) (sort_key (\<lambda>x. x) xs) \<longleftrightarrow>
        sorted_wrt (\<lambda>a b. g a \<inter> g b = {}) xs"
    by (rule sorted_wrt_sort_key) blast
  then show ?thesis by (simp add: non_overlapping_def sorted_wrt_map)
qed

lemma normal_distinct_atoms:
  assumes "normal i" "a \<in> set i" "b \<in> set i" "atomic_addresses a \<inter> atomic_addresses b \<noteq> {}"
  shows "a = b"
proof -
  from assms(1) have "sorted_wrt (\<lambda>a b. snd a < fst b) i" by (simp add: normal_def)
  from sorted_wrt_pair [OF this assms(2,3)]
  have "a = b \<or> snd a < fst b \<or> snd b < fst a" .
  moreover from assms(4) have "fst a < snd b \<and> fst b < snd a"
    by (auto simp: atomic_addresses_def)
  ultimately show ?thesis by auto
qed

lemma normal_nonempty_atoms: "normal i \<Longrightarrow> a \<in> set i \<Longrightarrow> fst a < snd a"
  by (simp add: normal_def list_all_iff)

lemma normal_covers:
  assumes n: "normal i" and lh: "lo < hi" and sub: "{lo..<hi} \<subseteq> addresses i"
  shows "\<exists>a\<in>set i. fst a \<le> lo \<and> hi \<le> snd a"
proof -
  from lh sub have "lo \<in> addresses i" by auto
  then obtain a where a: "a \<in> set i" "fst a \<le> lo" "lo < snd a"
    by (auto simp: addresses_def atomic_addresses_def)
  have "hi \<le> snd a"
  proof (rule ccontr)
    assume "\<not> hi \<le> snd a"
    then have "snd a < hi" by simp
    with a sub have "snd a \<in> addresses i" by auto
    then obtain b where b: "b \<in> set i" "fst b \<le> snd a" "snd a < snd b"
      by (auto simp: addresses_def atomic_addresses_def)
    from n have "sorted_wrt (\<lambda>a b. snd a < fst b) i" by (simp add: normal_def)
    from sorted_wrt_pair [OF this a(1) b(1)]
    have "a = b \<or> snd a < fst b \<or> snd b < fst a" .
    with a b show False by auto
  qed
  with a show ?thesis by blast
qed

lemma normal_non_overlapping:
  "normal i \<Longrightarrow> sorted_wrt (\<lambda>a b. atomic_addresses a \<inter> atomic_addresses b = {}) i"
proof -
  assume "normal i"
  then have "sorted_wrt (\<lambda>a b. snd a < fst b) i" by (simp add: normal_def)
  then show ?thesis
    by (rule sorted_wrt_mono_rel [rotated]) (auto simp: atomic_addresses_def)
qed

lemma module_addresses_sort: "module_addresses (sort module_list) = module_addresses module_list"
  by (simp add: module_addresses_def)

lemma live_addresses_sort: "live_addresses (sort ranges) = live_addresses ranges"
  by (simp add: live_addresses_def)

lemma sorted_sort_fst: "sorted (map fst (sort (ranges :: (int \<times> int) list)))"
  by (rule sorted_map_fst) simp

lemma normal_filling:
  "normal (find_filling (sort module_list) (sort ranges))"
  by (rule normal_find_filling) (rule sorted_sort_fst)

lemma addresses_filling:
  "addresses (find_filling (sort module_list) (sort ranges)) =
     module_addresses module_list - live_addresses ranges"
  using addresses_find_filling [OF sorted_sort_fst, of "sort module_list" ranges]
  by (simp add: module_addresses_sort live_addresses_sort)

lemma Fin_less [simp]: "Fin a < Fin b \<longleftrightarrow> a < b"
  by (auto simp: less_bound_def)

lemma PInf_le_Fin [simp]: "\<not> PInf \<le> Fin a"
  by simp

lemma operation_addresses_Fin [simp]: "operation_addresses (Fin l, Fin u, k) = {l..<u}"
  by (auto simp: operation_addresses_def)

lemma operation_addresses_PInf [simp]: "operation_addresses (PInf, u, k) = {}"
  by (simp add: operation_addresses_def)

lemma set_operations:
  "set (operations module_list ranges) =
     (\<lambda>x. (fst x, snd x, ''pad''))
       ` set (atomic_intervals (find_filling (sort module_list) (sort ranges)))
     \<union> (\<lambda>r. (Fin (fst r), Fin (snd r), ''mem'')) ` set ranges"
  by (simp add: operations_def make_operations_def Let_def split_def)

lemma pad_operations:
  assumes "x \<in> set (operations module_list ranges)" "snd (snd x) = ''pad''"
  shows "(\<exists>a\<in>set (find_filling (sort module_list) (sort ranges)).
            x = (Fin (fst a), Fin (snd a), ''pad''))
         \<or> x = (PInf, NInf, ''pad'')"
proof -
  from assms have "x \<in> (\<lambda>x. (fst x, snd x, ''pad''))
       ` set (atomic_intervals (find_filling (sort module_list) (sort ranges)))"
    unfolding set_operations by auto
  then show ?thesis
    by (fastforce simp: atomic_intervals_def empty_interval_def split: if_splits)
qed

lemma mem_operations:
  assumes "x \<in> set (operations module_list ranges)" "snd (snd x) \<noteq> ''pad''"
  shows "\<exists>r\<in>set ranges. x = (Fin (fst r), Fin (snd r), ''mem'')"
  using assms unfolding set_operations by auto

lemma pad_addresses:
  assumes "x \<in> set (operations module_list ranges)" "snd (snd x) = ''pad''"
  shows "operation_addresses x \<subseteq> module_addresses module_list - live_addresses ranges"
proof -
  from pad_operations [OF assms]
  have "operation_addresses x \<subseteq> addresses (find_filling (sort module_list) (sort ranges))"
    by (auto simp: addresses_def atomic_addresses_def)
  then show ?thesis by (simp only: addresses_filling)
qed

lemma mem_addresses:
  assumes "x \<in> set (operations module_list ranges)" "snd (snd x) \<noteq> ''pad''"
  shows "operation_addresses x \<subseteq> live_addresses ranges"
  using mem_operations [OF assms] by (auto simp: live_addresses_def)

lemma covered_atomic_intervals:
  "covered (map (\<lambda>x. (fst x, snd x, k)) (atomic_intervals i)) = addresses i"
proof (cases "i = []")
  case True
  then show ?thesis by (simp add: covered_def atomic_intervals_def empty_interval_def)
next
  case False
  then show ?thesis
    by (simp add: covered_def atomic_intervals_def empty_interval_def addresses_def
          atomic_addresses_def split_def)
qed

lemma covered_append: "covered (xs @ ys) = covered xs \<union> covered ys"
  by (auto simp: covered_def)

lemma covered_set_cong: "set xs = set ys \<Longrightarrow> covered xs = covered ys"
  by (simp add: covered_def)

lemma covered_mems:
  "covered (map (\<lambda>(start, end'). (Fin start, Fin end', ''mem'')) ranges) = live_addresses ranges"
  by (simp add: covered_def live_addresses_def split_def)

lemma covered_operations:
  "covered (operations module_list ranges) =
     module_addresses module_list \<union> live_addresses ranges"
proof -
  let ?F = "find_filling (sort module_list) (sort ranges)"
  have "covered (operations module_list ranges) = covered (make_operations ?F (sort ranges))"
    by (rule covered_set_cong) (simp add: operations_def Let_def)
  also have "\<dots> = addresses ?F \<union> live_addresses (sort ranges)"
    by (simp only: make_operations_def covered_append covered_atomic_intervals covered_mems)
  finally show ?thesis
    by (simp add: addresses_filling live_addresses_sort Un_Diff_cancel2)
qed

lemma covered_pads:
  "covered (filter (\<lambda>x. snd (snd x) = ''pad'') (operations module_list ranges)) =
     module_addresses module_list - live_addresses ranges"
proof -
  let ?F = "find_filling (sort module_list) (sort ranges)"
  have "set (filter (\<lambda>x. snd (snd x) = ''pad'') (operations module_list ranges)) =
        set (map (\<lambda>x. (fst x, snd x, ''pad'')) (atomic_intervals ?F))"
    unfolding set_filter set_operations by auto
  then have "covered (filter (\<lambda>x. snd (snd x) = ''pad'') (operations module_list ranges)) =
        covered (map (\<lambda>x. (fst x, snd x, ''pad'')) (atomic_intervals ?F))"
    by (rule covered_set_cong)
  then show ?thesis by (simp only: covered_atomic_intervals addresses_filling)
qed

lemma sorted_operations: "sorted (map fst (operations module_list ranges))"
  unfolding operations_def Let_def by (rule sorted_map_fst) simp

lemma pads_non_overlapping:
  "normal i \<Longrightarrow>
   sorted_wrt (\<lambda>a b. a \<inter> b = {})
     (map operation_addresses (map (\<lambda>x. (fst x, snd x, k)) (atomic_intervals i)))"
proof (cases "i = []")
  case True
  then show ?thesis by (simp add: atomic_intervals_def empty_interval_def)
next
  case False
  assume "normal i"
  from normal_non_overlapping [OF this] False show ?thesis
    by (simp add: atomic_intervals_def empty_interval_def sorted_wrt_map split_def
          atomic_addresses_def)
qed

lemma non_overlapping_operations:
  "non_overlapping (map operation_addresses (operations module_list ranges)) \<longleftrightarrow>
   non_overlapping (map (\<lambda>r. {fst r..<snd r}) ranges)"
proof -
  let ?F = "find_filling (sort module_list) (sort ranges)"
  let ?L = "sort ranges"
  let ?pads = "map (\<lambda>x. (fst x, snd x, ''pad'')) (atomic_intervals ?F)"
  let ?mems = "map (\<lambda>(start, end'). (Fin start, Fin end', ''mem'')) ?L"
  have pads: "sorted_wrt (\<lambda>a b. a \<inter> b = {}) (map operation_addresses ?pads)"
    by (rule pads_non_overlapping) (rule normal_filling)
  have mems: "sorted_wrt (\<lambda>a b. a \<inter> b = {}) (map operation_addresses ?mems) \<longleftrightarrow>
              non_overlapping (map (\<lambda>r. {fst r..<snd r}) ranges)"
  proof -
    have "map operation_addresses ?mems = map (\<lambda>r. {fst r..<snd r}) ?L"
      by (simp add: split_def)
    then show ?thesis
      by (simp only: non_overlapping_def [symmetric] non_overlapping_sort)
  qed
  have cross: "\<forall>x\<in>set (map operation_addresses ?pads). \<forall>y\<in>set (map operation_addresses ?mems).
                 x \<inter> y = {}"
  proof (intro ballI)
    fix x y
    assume "x \<in> set (map operation_addresses ?pads)"
    then have "x \<subseteq> covered ?pads" by (auto simp: covered_def)
    then have x: "x \<inter> live_addresses ranges = {}"
      unfolding covered_atomic_intervals addresses_filling by blast
    assume "y \<in> set (map operation_addresses ?mems)"
    then have "y \<subseteq> covered ?mems" by (auto simp: covered_def)
    then have "y \<subseteq> live_addresses ranges"
      unfolding covered_mems live_addresses_sort .
    with x show "x \<inter> y = {}" by blast
  qed
  have "non_overlapping (map operation_addresses (operations module_list ranges)) \<longleftrightarrow>
        non_overlapping (map operation_addresses (make_operations ?F ?L))"
    by (simp only: operations_def Let_def non_overlapping_sort)
  also have "\<dots> \<longleftrightarrow> sorted_wrt (\<lambda>a b. a \<inter> b = {})
                     (map operation_addresses ?pads @ map operation_addresses ?mems)"
    by (simp only: non_overlapping_def make_operations_def map_append)
  also have "\<dots> \<longleftrightarrow> non_overlapping (map (\<lambda>r. {fst r..<snd r}) ranges)"
    unfolding sorted_wrt_append using pads mems cross by blast
  finally show ?thesis .
qed

lemma pad_apart:
  assumes x: "x \<in> set (operations module_list ranges)" and pad: "snd (snd x) = ''pad''"
    and y: "y \<in> set (operations module_list ranges)" and ne: "x \<noteq> y"
  shows "operation_addresses x \<inter> operation_addresses y = {}"
proof (cases "snd (snd y) = ''pad''")
  case False
  from pad_addresses [OF x pad] mem_addresses [OF y False] show ?thesis by blast
next
  case True
  from pad_operations [OF x pad] pad_operations [OF y True] show ?thesis
  proof (elim disjE bexE)
    fix a b
    assume a: "a \<in> set (find_filling (sort module_list) (sort ranges))"
      "x = (Fin (fst a), Fin (snd a), ''pad'')"
      and b: "b \<in> set (find_filling (sort module_list) (sort ranges))"
      "y = (Fin (fst b), Fin (snd b), ''pad'')"
    with ne have "a \<noteq> b" by auto
    with normal_distinct_atoms [OF normal_filling a(1) b(1)]
    have "atomic_addresses a \<inter> atomic_addresses b = {}" by blast
    with a(2) b(2) show ?thesis by (simp add: atomic_addresses_def)
  qed simp_all
qed

text \<open>
  Claim C1, amended.  The sorted operation sequence of \<open>read_memory_fast\<close> covers exactly
  the union of the module ranges and the live ranges (nothing outside, no gap inside) and
  is sorted by start address, for all modules and live ranges.  A \<open>'pad'\<close> operation
  shares no address with any other operation, and the \<open>'mem'\<close> operations are the live
  ranges as they are: the operations are pairwise non-overlapping if and only if the live
  ranges are.
\<close>

theorem operations_tile:
  "covered (operations module_list ranges) =
     module_addresses module_list \<union> live_addresses ranges
   \<and> sorted (map fst (operations module_list ranges))
   \<and> (\<forall>x\<in>set (operations module_list ranges). \<forall>y\<in>set (operations module_list ranges).
         snd (snd x) = ''pad'' \<longrightarrow> x \<noteq> y \<longrightarrow>
         operation_addresses x \<inter> operation_addresses y = {})
   \<and> (non_overlapping (map operation_addresses (operations module_list ranges)) \<longleftrightarrow>
        non_overlapping (map (\<lambda>r. {fst r..<snd r}) ranges))"
  using covered_operations sorted_operations pad_apart non_overlapping_operations
  by blast

lemma operations_sample2:
  "operations [(''a'', 0, 10), (''b'', 30, 10)] [(5, 8), (8, 9), (25, 35), (50, 60)] =
     [(Fin 0, Fin 5, ''pad''), (Fin 5, Fin 8, ''mem''), (Fin 8, Fin 9, ''mem''),
      (Fin 9, Fin 10, ''pad''), (Fin 25, Fin 35, ''mem''), (Fin 35, Fin 40, ''pad''),
      (Fin 50, Fin 60, ''mem'')]"
  by code_simp

theorem operations_tile_witness:
  "non_overlapping (map operation_addresses
       [(Fin 0, Fin 5, ''pad''), (Fin 5, Fin 8, ''mem''), (Fin 8, Fin 9, ''mem''),
        (Fin 9, Fin 10, ''pad''), (Fin 25, Fin 35, ''mem''), (Fin 35, Fin 40, ''pad''),
        (Fin 50, Fin 60, ''mem'')])
   \<and> covered [(Fin 0, Fin 5, ''pad''), (Fin 5, Fin 8, ''mem''), (Fin 8, Fin 9, ''mem''),
               (Fin 9, Fin 10, ''pad''), (Fin 25, Fin 35, ''mem''), (Fin 35, Fin 40, ''pad''),
               (Fin 50, Fin 60, ''mem'')]
      = module_addresses [(''a'', 0, 10), (''b'', 30, 10)]
        \<union> live_addresses [(5, 8), (8, 9), (25, 35), (50, 60)]
   \<and> operation_addresses (Fin 0, Fin 5, ''pad'') \<inter> operation_addresses (Fin 5, Fin 8, ''mem'')
      = {}"
proof -
  have h: "non_overlapping (map (\<lambda>r. {fst r..<snd r}) [(5, 8), (8, 9), (25, 35), (50, 60)])"
    by (simp add: non_overlapping_def)
  have x: "(Fin 0, Fin 5, ''pad'')
             \<in> set (operations [(''a'', 0, 10), (''b'', 30, 10)] [(5, 8), (8, 9), (25, 35), (50, 60)])"
    and y: "(Fin 5, Fin 8, ''mem'')
             \<in> set (operations [(''a'', 0, 10), (''b'', 30, 10)] [(5, 8), (8, 9), (25, 35), (50, 60)])"
    by (simp_all add: operations_sample2)
  have p: "snd (snd (Fin 0, Fin 5, ''pad'')) = ''pad''"
    and ne: "(Fin 0, Fin 5, ''pad'') \<noteq> (Fin 5, Fin 8, ''mem'')"
    by simp_all
  note t = operations_tile
             [of "[(''a'', 0, 10), (''b'', 30, 10)]" "[(5, 8), (8, 9), (25, 35), (50, 60)]"]
  note t2 = t [THEN conjunct2, THEN conjunct2]
  from t2 [THEN conjunct2] h have 1: "non_overlapping (map operation_addresses
      (operations [(''a'', 0, 10), (''b'', 30, 10)] [(5, 8), (8, 9), (25, 35), (50, 60)]))"
    by (rule iffD2)
  from t have 2: "covered
      (operations [(''a'', 0, 10), (''b'', 30, 10)] [(5, 8), (8, 9), (25, 35), (50, 60)])
      = module_addresses [(''a'', 0, 10), (''b'', 30, 10)]
        \<union> live_addresses [(5, 8), (8, 9), (25, 35), (50, 60)]"
    by (rule conjunct1)
  from t2 [THEN conjunct1, rule_format, OF x y p ne]
  have 3: "operation_addresses (Fin 0, Fin 5, ''pad'')
             \<inter> operation_addresses (Fin 5, Fin 8, ''mem'') = {}" .
  from 1 [unfolded operations_sample2] 2 [unfolded operations_sample2] 3
  show ?thesis by (intro conjI)
qed

theorem operations_tile_counterexample:
  "operations [(''a'', 20, 10)] [(0, 10), (5, 15)] =
     [(Fin 0, Fin 10, ''mem''), (Fin 5, Fin 15, ''mem''), (Fin 20, Fin 30, ''pad'')]
   \<and> \<not> non_overlapping (map operation_addresses
           (operations [(''a'', 20, 10)] [(0, 10), (5, 15)]))"
proof -
  have o: "operations [(''a'', 20, 10)] [(0, 10), (5, 15)] =
     [(Fin 0, Fin 10, ''mem''), (Fin 5, Fin 15, ''mem''), (Fin 20, Fin 30, ''pad'')]"
    by code_simp
  have "(5::int) \<in> {0..<10} \<inter> {5..<15}" by simp
  then have "{0..<10} \<inter> {5..<15} \<noteq> ({}::int set)" by blast
  then have "\<not> non_overlapping (map operation_addresses
     [(Fin 0, Fin 10, ''mem''), (Fin 5, Fin 15, ''mem''), (Fin 20, Fin 30, ''pad'')])"
    by (simp add: non_overlapping_def)
  with o show ?thesis by simp
qed

lemma module_span_subset: "m \<in> set module_list \<Longrightarrow> module_span m \<subseteq> module_addresses module_list"
  by (auto simp: module_span_def module_addresses_def)

lemma single_pad:
  assumes m: "m \<in> set module_list"
    and ne: "module_span m \<noteq> {}"
    and free: "module_span m \<inter> live_addresses ranges = {}"
  shows "\<exists>a\<in>set (find_filling (sort module_list) (sort ranges)).
           fst a \<le> fst (snd m) \<and> fst (snd m) + snd (snd m) \<le> snd a
           \<and> (Fin (fst a), Fin (snd a), ''pad'') \<in> set (operations module_list ranges)
           \<and> (\<forall>y\<in>set (operations module_list ranges).
                 operation_addresses y \<inter> module_span m \<noteq> {} \<longrightarrow>
                 y = (Fin (fst a), Fin (snd a), ''pad''))"
proof -
  let ?F = "find_filling (sort module_list) (sort ranges)"
  let ?lo = "fst (snd m)" and ?hi = "fst (snd m) + snd (snd m)"
  from ne have lh: "?lo < ?hi" by (simp add: module_span_def)
  from module_span_subset [OF m] free have "module_span m \<subseteq> addresses ?F"
    unfolding addresses_filling by blast
  then have "{?lo..<?hi} \<subseteq> addresses ?F" by (simp add: module_span_def)
  from normal_covers [OF normal_filling lh this]
  obtain a where a: "a \<in> set ?F" "fst a \<le> ?lo" "?hi \<le> snd a" by blast
  then have sub: "module_span m \<subseteq> atomic_addresses a"
    by (auto simp: module_span_def atomic_addresses_def)
  from a(1) have "?F \<noteq> []" by auto
  with a(1) have op: "(Fin (fst a), Fin (snd a), ''pad'') \<in> set (operations module_list ranges)"
    unfolding set_operations
    by (force simp: atomic_intervals_def empty_interval_def)
  have uniq: "y = (Fin (fst a), Fin (snd a), ''pad'')"
    if y: "y \<in> set (operations module_list ranges)"
      and meet: "operation_addresses y \<inter> module_span m \<noteq> {}" for y
  proof (cases "snd (snd y) = ''pad''")
    case True
    from pad_operations [OF y True] show ?thesis
    proof
      assume "\<exists>b\<in>set ?F. y = (Fin (fst b), Fin (snd b), ''pad'')"
      then obtain b where b: "b \<in> set ?F" "y = (Fin (fst b), Fin (snd b), ''pad'')" by blast
      from meet sub b(2) have "atomic_addresses a \<inter> atomic_addresses b \<noteq> {}"
        by (auto simp: atomic_addresses_def)
      from normal_distinct_atoms [OF normal_filling a(1) b(1) this] b(2)
      show ?thesis by simp
    next
      assume "y = (PInf, NInf, ''pad'')"
      with meet show ?thesis by simp
    qed
  next
    case False
    from mem_addresses [OF y False] free meet show ?thesis by blast
  qed
  from a op uniq show ?thesis by blast
qed

text \<open>
  Claim C2, amended.  For every module of the list: the addresses of the \<open>'pad'\<close>
  operations inside the module's span are the span minus the live ranges; every live range
  is emitted as a \<open>'mem'\<close> operation; if the span lies within one live range, every
  operation that meets the span is \<open>'mem'\<close>; if the span is not empty and meets no live
  range, it lies within one \<open>'pad'\<close> operation, which is the only operation that meets
  it; and that operation is the span itself when no other module's range overlaps or
  touches the span (the unmapped parts of overlapping or touching modules are merged into
  one operation).
\<close>

theorem zero_fill_is_module_minus_live:
  assumes m: "m \<in> set module_list"
  shows "covered (filter (\<lambda>x. snd (snd x) = ''pad'') (operations module_list ranges))
           \<inter> module_span m = module_span m - live_addresses ranges
         \<and> (\<forall>r\<in>set ranges. (Fin (fst r), Fin (snd r), ''mem'') \<in> set (operations module_list ranges))
         \<and> ((\<exists>r\<in>set ranges. module_span m \<subseteq> {fst r..<snd r}) \<longrightarrow>
              (\<forall>x\<in>set (operations module_list ranges).
                 operation_addresses x \<inter> module_span m \<noteq> {} \<longrightarrow> snd (snd x) = ''mem''))
         \<and> (module_span m \<noteq> {} \<longrightarrow> module_span m \<inter> live_addresses ranges = {} \<longrightarrow>
              (\<exists>x\<in>set (operations module_list ranges).
                 snd (snd x) = ''pad'' \<and> module_span m \<subseteq> operation_addresses x
                 \<and> (\<forall>y\<in>set (operations module_list ranges).
                       operation_addresses y \<inter> module_span m \<noteq> {} \<longrightarrow> y = x)))
         \<and> (module_span m \<noteq> {} \<longrightarrow> module_span m \<inter> live_addresses ranges = {} \<longrightarrow>
              (\<forall>m'\<in>set module_list.
                 module_span m' \<inter> {fst (snd m) - 1..fst (snd m) + snd (snd m)} \<subseteq> module_span m) \<longrightarrow>
              (Fin (fst (snd m)), Fin (fst (snd m) + snd (snd m)), ''pad'')
                \<in> set (operations module_list ranges))"
proof (intro conjI impI)
  show "covered (filter (\<lambda>x. snd (snd x) = ''pad'') (operations module_list ranges))
           \<inter> module_span m = module_span m - live_addresses ranges"
    unfolding covered_pads using module_span_subset [OF m] by blast
next
  show "\<forall>r\<in>set ranges. (Fin (fst r), Fin (snd r), ''mem'') \<in> set (operations module_list ranges)"
    unfolding set_operations by blast
next
  assume "\<exists>r\<in>set ranges. module_span m \<subseteq> {fst r..<snd r}"
  then have inside: "module_span m \<subseteq> live_addresses ranges"
    by (auto simp: live_addresses_def)
  show "\<forall>x\<in>set (operations module_list ranges).
          operation_addresses x \<inter> module_span m \<noteq> {} \<longrightarrow> snd (snd x) = ''mem''"
  proof (intro ballI impI)
    fix x
    assume x: "x \<in> set (operations module_list ranges)"
      and meet: "operation_addresses x \<inter> module_span m \<noteq> {}"
    have "snd (snd x) \<noteq> ''pad''"
    proof
      assume "snd (snd x) = ''pad''"
      from pad_addresses [OF x this] inside meet show False by blast
    qed
    with mem_operations [OF x] show "snd (snd x) = ''mem''" by auto
  qed
next
  assume ne: "module_span m \<noteq> {}" and free: "module_span m \<inter> live_addresses ranges = {}"
  from single_pad [OF m ne free] obtain a where
    a: "fst a \<le> fst (snd m)" "fst (snd m) + snd (snd m) \<le> snd a"
       "(Fin (fst a), Fin (snd a), ''pad'') \<in> set (operations module_list ranges)"
       "\<forall>y\<in>set (operations module_list ranges).
          operation_addresses y \<inter> module_span m \<noteq> {} \<longrightarrow>
          y = (Fin (fst a), Fin (snd a), ''pad'')"
    by blast
  from a(1,2) have "module_span m \<subseteq> operation_addresses (Fin (fst a), Fin (snd a), ''pad'')"
    by (auto simp: module_span_def)
  with a(3,4) show "\<exists>x\<in>set (operations module_list ranges).
                 snd (snd x) = ''pad'' \<and> module_span m \<subseteq> operation_addresses x
                 \<and> (\<forall>y\<in>set (operations module_list ranges).
                       operation_addresses y \<inter> module_span m \<noteq> {} \<longrightarrow> y = x)"
    by (intro bexI [of _ "(Fin (fst a), Fin (snd a), ''pad'')"]) simp_all
next
  let ?lo = "fst (snd m)" and ?hi = "fst (snd m) + snd (snd m)"
  assume ne: "module_span m \<noteq> {}" and free: "module_span m \<inter> live_addresses ranges = {}"
    and alone: "\<forall>m'\<in>set module_list. module_span m' \<inter> {?lo - 1..?hi} \<subseteq> module_span m"
  from ne have lh: "?lo < ?hi" by (simp add: module_span_def)
  from single_pad [OF m ne free] obtain a where
    a: "fst a \<le> ?lo" "?hi \<le> snd a"
       "(Fin (fst a), Fin (snd a), ''pad'') \<in> set (operations module_list ranges)"
    by blast
  have "snd (snd (Fin (fst a), Fin (snd a), ''pad'')) = ''pad''" by simp
  from pad_addresses [OF a(3) this]
  have sub: "{fst a..<snd a} \<subseteq> module_addresses module_list"
    by auto
  have inside: "x \<in> module_span m" if "x \<in> {fst a..<snd a}" "x \<in> {?lo - 1..?hi}" for x
  proof -
    from that(1) sub have "x \<in> module_addresses module_list" by blast
    then obtain m' where "m' \<in> set module_list" "x \<in> module_span m'"
      by (auto simp: module_addresses_def module_span_def)
    with alone that(2) show ?thesis by blast
  qed
  have "fst a = ?lo"
  proof (rule ccontr)
    assume "fst a \<noteq> ?lo"
    with a(1) have "fst a < ?lo" by simp
    with lh a(2) have "?lo - 1 \<in> {fst a..<snd a}" "?lo - 1 \<in> {?lo - 1..?hi}" by auto
    from inside [OF this] show False by (simp add: module_span_def)
  qed
  moreover have "snd a = ?hi"
  proof (rule ccontr)
    assume "snd a \<noteq> ?hi"
    with a(2) have "?hi < snd a" by simp
    with lh a(1) have "?hi \<in> {fst a..<snd a}" "?hi \<in> {?lo - 1..?hi}" by auto
    from inside [OF this] show False by (simp add: module_span_def)
  qed
  ultimately show "(Fin ?lo, Fin ?hi, ''pad'') \<in> set (operations module_list ranges)"
    using a(3) by simp
qed


lemma operations_sample3:
  "operations [(''a'', 0, 10), (''b'', 20, 10)] [(20, 30), (40, 45)] =
     [(Fin 0, Fin 10, ''pad''), (Fin 20, Fin 30, ''mem''), (Fin 40, Fin 45, ''mem'')]"
  by code_simp

theorem zero_fill_is_module_minus_live_witness:
  "covered (filter (\<lambda>x. snd (snd x) = ''pad'')
      [(Fin 0, Fin 5, ''pad''), (Fin 5, Fin 8, ''mem''), (Fin 8, Fin 9, ''mem''),
       (Fin 9, Fin 10, ''pad''), (Fin 25, Fin 35, ''mem''), (Fin 35, Fin 40, ''pad''),
       (Fin 50, Fin 60, ''mem'')]) \<inter> module_span (''a'', 0, 10)
     = module_span (''a'', 0, 10) - live_addresses [(5, 8), (8, 9), (25, 35), (50, 60)]
   \<and> (Fin 0, Fin 10, ''pad'')
       \<in> set (operations [(''a'', 0, 10), (''b'', 20, 10)] [(20, 30), (40, 45)])
   \<and> (Fin 20, Fin 30, ''mem'')
       \<in> set (operations [(''a'', 0, 10), (''b'', 20, 10)] [(20, 30), (40, 45)])"
proof -
  let ?MA = "[(''a'', 0, 10), (''b'', 30, 10)] :: module list"
  let ?RA = "[(5, 8), (8, 9), (25, 35), (50, 60)] :: (int \<times> int) list"
  let ?MB = "[(''a'', 0, 10), (''b'', 20, 10)] :: module list"
  let ?RB = "[(20, 30), (40, 45)] :: (int \<times> int) list"
  have a: "(''a'', 0, 10) \<in> set ?MA" by simp
  have b: "(''a'', 0, 10) \<in> set ?MB" by simp
  have ne: "module_span (''a'', 0, 10) \<noteq> {}" by (simp add: module_span_def)
  have free: "module_span (''a'', 0, 10) \<inter> live_addresses ?RB = {}"
    by (auto simp: module_span_def)
  have alone: "\<forall>m'\<in>set ?MB.
      module_span m' \<inter> {fst (snd (''a'', 0::int, 10::int)) - 1..
                          fst (snd (''a'', 0::int, 10::int)) + snd (snd (''a'', 0::int, 10::int))}
        \<subseteq> module_span (''a'', 0, 10)"
    by (auto simp: module_span_def)
  have r: "(20, 30) \<in> set ?RB" by simp
  note ta = zero_fill_is_module_minus_live [OF a, of ?RA]
  note tb = zero_fill_is_module_minus_live [OF b, of ?RB]
  from ta have 1: "covered (filter (\<lambda>x. snd (snd x) = ''pad'') (operations ?MA ?RA))
             \<inter> module_span (''a'', 0, 10) = module_span (''a'', 0, 10) - live_addresses ?RA"
    by (rule conjunct1)
  from tb [THEN conjunct2, THEN conjunct2, THEN conjunct2, THEN conjunct2, rule_format,
           OF ne free alone [rule_format]]
  have 2: "(Fin 0, Fin 10, ''pad'') \<in> set (operations ?MB ?RB)"
    by simp
  from tb [THEN conjunct2, THEN conjunct1, rule_format, OF r]
  have 3: "(Fin 20, Fin 30, ''mem'') \<in> set (operations ?MB ?RB)"
    by simp
  from 1 [unfolded operations_sample2] 2 3 show ?thesis by (intro conjI)
qed

theorem zero_fill_is_module_minus_live_counterexample:
  "operations [(''a'', 0, 10), (''b'', 10, 10)] [] = [(Fin 0, Fin 20, ''pad'')]
   \<and> module_span (''a'', 0, 10) \<inter> live_addresses [] = {}
   \<and> (Fin 0, Fin 10, ''pad'') \<notin> set (operations [(''a'', 0, 10), (''b'', 10, 10)] [])"
proof -
  have o: "operations [(''a'', 0, 10), (''b'', 10, 10)] [] = [(Fin 0, Fin 20, ''pad'')]"
    by code_simp
  then show ?thesis by simp
qed

end
